theory Spec2Isabelle
  imports Main "HOL-Library.AList"
begin

section \<open>Python classes\<close>

text \<open>
  A Python class is given by its module, its name and its direct base classes.
  \<open>issubclass\<close> follows the base classes transitively, as Python's method
  resolution order does; \<open>class_name\<close> is \<open>cls.__name__\<close> and
  \<open>class_str\<close> is what an f-string prints for a class.
\<close>

datatype pyclass = PyClass (cls_module: string) (cls_name: string) (cls_bases: "pyclass list")

fun issubclass :: "pyclass \<Rightarrow> pyclass \<Rightarrow> bool" where
  "issubclass (PyClass m n bs) d = (PyClass m n bs = d \<or> (\<exists>b \<in> set bs. issubclass b d))"

definition class_str :: "pyclass \<Rightarrow> string" where
  "class_str c = ''<class '' @ [CHR 0x27] @ cls_module c @ ''.'' @ cls_name c @ [CHR 0x27] @ ''>''"

text \<open>\<open>str_in p s\<close> is Python's \<open>p in s\<close> on strings: \<open>p\<close> occurs in \<open>s\<close> as a
  contiguous run of characters.\<close>

fun str_prefix :: "string \<Rightarrow> string \<Rightarrow> bool" where
  "str_prefix [] s = True"
| "str_prefix (c # p) [] = False"
| "str_prefix (c # p) (d # s) = (c = d \<and> str_prefix p s)"

fun str_in :: "string \<Rightarrow> string \<Rightarrow> bool" where
  "str_in p [] = (p = [])"
| "str_in p (d # s) = (str_prefix p (d # s) \<or> str_in p s)"

text \<open>
  Modelled from the spec: the class declarations of \<open>praxis.layers\<close> and
  \<open>praxis.layers.quantization\<close> are not part of the source files. Each class
  the rewriter names is given here by the qualified name the rewriter uses for it; a
  quantized class derives from the class it replaces.
\<close>

definition BaseLayer :: pyclass where
  "BaseLayer = PyClass ''praxis.base_layer'' ''BaseLayer'' []"

definition layers_transformers_Transformer :: pyclass where
  "layers_transformers_Transformer = PyClass ''praxis.layers.transformers'' ''Transformer'' [BaseLayer]"

definition layers_TransformerLm :: pyclass where
  "layers_TransformerLm = PyClass ''praxis.layers.transformer_models'' ''TransformerLm'' [BaseLayer]"

definition layers_attentions_DotProductAttention :: pyclass where
  "layers_attentions_DotProductAttention =
     PyClass ''praxis.layers.attentions'' ''DotProductAttention'' [BaseLayer]"

definition layers_multi_query_attention_MultiQueryDotProductAttention :: pyclass where
  "layers_multi_query_attention_MultiQueryDotProductAttention =
     PyClass ''praxis.layers.multi_query_attention'' ''MultiQueryDotProductAttention'' [BaseLayer]"

definition layers_attentions_AttentionProjection :: pyclass where
  "layers_attentions_AttentionProjection =
     PyClass ''praxis.layers.attentions'' ''AttentionProjection'' [BaseLayer]"

definition layers_attentions_CombinedQKVProjectionLayer :: pyclass where
  "layers_attentions_CombinedQKVProjectionLayer =
     PyClass ''praxis.layers.attentions'' ''CombinedQKVProjectionLayer'' [BaseLayer]"

definition layers_multi_query_attention_OneHeadedAttentionProjection :: pyclass where
  "layers_multi_query_attention_OneHeadedAttentionProjection =
     PyClass ''praxis.layers.multi_query_attention'' ''OneHeadedAttentionProjection'' [BaseLayer]"

definition layers_transformers_TransformerFeedForward :: pyclass where
  "layers_transformers_TransformerFeedForward =
     PyClass ''praxis.layers.transformers'' ''TransformerFeedForward'' [BaseLayer]"

definition layers_linears_FeedForward :: pyclass where
  "layers_linears_FeedForward = PyClass ''praxis.layers.linears'' ''FeedForward'' [BaseLayer]"

definition layers_Linear :: pyclass where
  "layers_Linear = PyClass ''praxis.layers.linears'' ''Linear'' [BaseLayer]"

definition layers_SharedEmbeddingSoftmax :: pyclass where
  "layers_SharedEmbeddingSoftmax =
     PyClass ''praxis.layers.embedding_softmax'' ''SharedEmbeddingSoftmax'' [BaseLayer]"

definition layers_ngrammer_Ngrammer :: pyclass where
  "layers_ngrammer_Ngrammer = PyClass ''praxis.layers.ngrammer'' ''Ngrammer'' [BaseLayer]"

definition layers_ngrammer_VQNgrammer :: pyclass where
  "layers_ngrammer_VQNgrammer = PyClass ''praxis.layers.ngrammer'' ''VQNgrammer'' [BaseLayer]"

definition layers_Conv2D :: pyclass where
  "layers_Conv2D = PyClass ''praxis.layers.convolutions'' ''Conv2D'' [BaseLayer]"

definition quantization_AttentionProjection :: pyclass where
  "quantization_AttentionProjection =
     PyClass ''praxis.layers.quantization.attentions'' ''AttentionProjection''
       [layers_attentions_AttentionProjection]"

definition quantization_attentions_CombinedQKVProjectionLayer :: pyclass where
  "quantization_attentions_CombinedQKVProjectionLayer =
     PyClass ''praxis.layers.quantization.attentions'' ''CombinedQKVProjectionLayer''
       [layers_attentions_CombinedQKVProjectionLayer]"

definition quantization_multi_query_attention_OneHeadedAttentionProjection :: pyclass where
  "quantization_multi_query_attention_OneHeadedAttentionProjection =
     PyClass ''praxis.layers.quantization.multi_query_attention'' ''OneHeadedAttentionProjection''
       [layers_multi_query_attention_OneHeadedAttentionProjection]"

definition quantization_Linear :: pyclass where
  "quantization_Linear = PyClass ''praxis.layers.quantization.linears'' ''Linear'' [layers_Linear]"

definition quantization_SharedEmbeddingSoftmax :: pyclass where
  "quantization_SharedEmbeddingSoftmax =
     PyClass ''praxis.layers.quantization.embedding_softmax'' ''SharedEmbeddingSoftmax''
       [layers_SharedEmbeddingSoftmax]"

definition quantization_NClassMajorSharedEmbeddingSoftmax :: pyclass where
  "quantization_NClassMajorSharedEmbeddingSoftmax =
     PyClass ''praxis.layers.quantization.embedding_softmax'' ''NClassMajorSharedEmbeddingSoftmax''
       [layers_SharedEmbeddingSoftmax]"

definition quantization_Ngrammer :: pyclass where
  "quantization_Ngrammer =
     PyClass ''praxis.layers.quantization.ngrammer'' ''Ngrammer'' [layers_ngrammer_Ngrammer]"

definition quantization_VQNgrammer :: pyclass where
  "quantization_VQNgrammer =
     PyClass ''praxis.layers.quantization.ngrammer'' ''VQNgrammer'' [layers_ngrammer_VQNgrammer]"

definition quantization_Conv2D :: pyclass where
  "quantization_Conv2D =
     PyClass ''praxis.layers.quantization.convolutions'' ''Conv2D'' [layers_Conv2D]"

section \<open>Quantization parameters\<close>

text \<open>
  Modelled from the spec: \<open>quantization_hparams\<close> is not part of the source files.
  The records hold the fields the rewriter passes to the constructors; a field the
  rewriter leaves out takes the dataclass default, which the spec gives as block size 0
  (sub-channel quantization off) and as no activation parameters.
\<close>

datatype QuantizationType = PTQ | FQ | AQT

datatype QuantizationMode = TRAINING | INFERENCE | MATERIALIZE

datatype jnp_dtype = Jnp_int4 | Jnp_int8 | Jnp_int32 | Jnp_other string

record WeightQuantizationParams =
  precision :: int
  use_symmetric :: bool
  dtype :: jnp_dtype
  block_size :: int
  use_int4_packed_weights :: bool
  int4_packed_weights_container_dtype :: jnp_dtype

record ActQuantizationParams =
  act_precision :: int

record QuantizationParams =
  quantization_type :: QuantizationType
  mode :: QuantizationMode
  act_params :: "ActQuantizationParams option"
  weight_params :: WeightQuantizationParams

definition default_act_params :: "ActQuantizationParams option" where
  "default_act_params = None"

definition default_block_size :: int where
  "default_block_size = 0"

definition default_use_int4_packed_weights :: bool where
  "default_use_int4_packed_weights = True"

definition default_int4_packed_weights_container_dtype :: jnp_dtype where
  "default_int4_packed_weights_container_dtype = Jnp_int32"

section \<open>Config nodes and the object store\<close>

text \<open>
  A template graph is a store of Config nodes. A node carries its target class and its
  argument mapping, in order; an argument value is a primitive, the sentinel of a
  required argument that is still unset, a quantization
  parameters value, a reference to a node (its identity is its address in the store), a
  sequence or a dictionary. Mutation through one reference is seen through every other
  reference to the same address.
\<close>

type_synonym addr = nat

datatype val =
    VNone
  | VUnset
  | VBool bool
  | VInt int
  | VStr string
  | VMode QuantizationMode
  | VQuant QuantizationParams
  | VCfg addr
  | VSeq "val list"
  | VDict "(string \<times> val) list"

datatype node = Node (cls: pyclass) (args: "(string \<times> val) list")

type_synonym heap = "node list"

text \<open>
  Errors are values. \<open>ValueError\<close> is the spec's UnsupportedArchitecture,
  \<open>AssertionError\<close> its InvariantViolation; \<open>MissingArgument\<close> and
  \<open>RecursionError\<close> are raised by \<open>build\<close> only, \<open>TypeError\<close> by the \<open>setup\<close>
  methods of the test classes only. \<open>DanglingReference\<close> is not a Python
  error: it marks a reference to an address that holds no node, which no store built by
  Python contains.
\<close>

datatype error =
    ValueError string
  | AttributeError string
  | AssertionError
  | MissingArgument string
  | RecursionError
  | TypeError string
  | DanglingReference addr

definition heap_get :: "heap \<Rightarrow> addr \<Rightarrow> node option" where
  "heap_get h a = (if a < length h then Some (h ! a) else None)"

text \<open>
  Modelled from the spec: \<open>pax_fiddle.Config\<close> is not part of the source files.
  Constructing a Config allocates a new node holding the keyword arguments given;
  reading an attribute looks the name up in the argument mapping of the node; assigning
  an attribute overwrites the entry in place, or adds it when the name has no value yet.
  \<open>hasattr\<close> holds when the name has a value.
\<close>

definition pax_fiddle_Config :: "heap \<Rightarrow> pyclass \<Rightarrow> (string \<times> val) list \<Rightarrow> addr \<times> heap" where
  "pax_fiddle_Config h c kwargs = (length h, h @ [Node c kwargs])"

definition val_getattr :: "heap \<Rightarrow> val \<Rightarrow> string \<Rightarrow> error + val" where
  "val_getattr h v k =
     (case v of
        VCfg a \<Rightarrow>
          (case heap_get h a of
             None \<Rightarrow> Inl (DanglingReference a)
           | Some n \<Rightarrow>
               (case map_of (args n) k of
                  None \<Rightarrow> Inl (AttributeError k)
                | Some x \<Rightarrow> Inr x))
      | _ \<Rightarrow> Inl (AttributeError k))"

definition val_hasattr :: "heap \<Rightarrow> val \<Rightarrow> string \<Rightarrow> bool" where
  "val_hasattr h v k = (case val_getattr h v k of Inl _ \<Rightarrow> False | Inr _ \<Rightarrow> True)"

definition val_cls :: "heap \<Rightarrow> val \<Rightarrow> error + pyclass" where
  "val_cls h v =
     (case v of
        VCfg a \<Rightarrow>
          (case heap_get h a of
             None \<Rightarrow> Inl (DanglingReference a)
           | Some n \<Rightarrow> Inr (cls n))
      | _ \<Rightarrow> Inl (AttributeError ''cls''))"

definition val_setattr :: "heap \<Rightarrow> val \<Rightarrow> string \<Rightarrow> val \<Rightarrow> error + heap" where
  "val_setattr h v k x =
     (case v of
        VCfg a \<Rightarrow>
          (case heap_get h a of
             None \<Rightarrow> Inl (DanglingReference a)
           | Some n \<Rightarrow> Inr (h[a := Node (cls n) (AList.update k x (args n))]))
      | _ \<Rightarrow> Inl (AttributeError k))"

text \<open>
  Modelled from the spec: \<open>copy_fields_from\<close> is not part of the source files.
  Every field that has a value on the source template is copied onto the receiving
  template, by reference, except the quantization field, which is special to the
  quantized classes. The class declarations that would single out further incompatible
  fields are not part of the source files, so every other field counts as compatible.
\<close>

definition copied_args ::
  "(string \<times> val) list \<Rightarrow> (string \<times> val) list \<Rightarrow> (string \<times> val) list" where
  "copied_args self_args source_args =
     foldr (\<lambda>(k, x). AList.update k x)
       (filter (\<lambda>(k, x). k \<noteq> ''quantization'') source_args) self_args"

definition copy_fields_from :: "heap \<Rightarrow> val \<Rightarrow> val \<Rightarrow> error + heap" where
  "copy_fields_from h self source =
     (case source of
        VCfg b \<Rightarrow>
          (case heap_get h b of
             None \<Rightarrow> Inl (DanglingReference b)
           | Some nb \<Rightarrow>
               (case self of
                  VCfg a \<Rightarrow>
                    (case heap_get h a of
                       None \<Rightarrow> Inl (DanglingReference a)
                     | Some na \<Rightarrow>
                         Inr (h[a := Node (cls na) (copied_args (args na) (args nb))]))
                | _ \<Rightarrow> Inl (AttributeError ''copy_fields_from'')))
      | _ \<Rightarrow> Inl (AttributeError ''clone''))"

text \<open>
  Modelled from the spec: \<open>utils.find_target_tpl\<close> is not part of the source
  files. It walks the graph depth first from the root over node arguments and sequences
  and gives every node whose class is a subclass of the target, each node once. The
  loops of the rewriter below are separate functions over the sequence of matched nodes,
  and their properties are proved for every sequence.
\<close>

function (sequential) find_walk :: "heap \<Rightarrow> pyclass \<Rightarrow> val list \<Rightarrow> addr list \<Rightarrow> addr list" where
  "find_walk h target [] seen = []"
| "find_walk h target (VCfg a # st) seen =
     (if a < length h \<and> a \<notin> set seen
      then (if issubclass (cls (h ! a)) target then [a] else [])
             @ find_walk h target (map snd (args (h ! a)) @ st) (a # seen)
      else find_walk h target st seen)"
| "find_walk h target (VSeq vs # st) seen = find_walk h target (vs @ st) seen"
| "find_walk h target (v # st) seen = find_walk h target st seen"
  by pat_completeness auto

lemma card_seen_less:
  assumes "a < n" "a \<notin> set seen"
  shows "n - card (insert a (set seen) \<inter> {..<n}) < n - card (set seen \<inter> {..<n})"
proof -
  have fin: "finite (set seen \<inter> {..<n})" by simp
  have ins: "insert a (set seen) \<inter> {..<n} = insert a (set seen \<inter> {..<n})"
    using assms(1) by auto
  have notin: "a \<notin> set seen \<inter> {..<n}" using assms(2) by simp
  have "insert a (set seen \<inter> {..<n}) \<subseteq> {..<n}" using assms(1) by auto
  then have "card (insert a (set seen \<inter> {..<n})) \<le> card {..<n}"
    by (intro card_mono) simp_all
  then have "Suc (card (set seen \<inter> {..<n})) \<le> n"
    using fin notin by simp
  then show ?thesis using ins fin notin by simp
qed

termination find_walk
proof (relation "measures [\<lambda>(h, t, st, seen). length h - card (set seen \<inter> {..<length h}),
                           \<lambda>(h, t, st, seen). size_list size st]", goal_cases)
  case 1
  show ?case by simp
next
  case (2 h target a st seen)
  then show ?case using card_seen_less [of a "length h" seen] by simp
qed simp_all

definition find_target_tpl :: "heap \<Rightarrow> val \<Rightarrow> pyclass \<Rightarrow> addr list" where
  "find_target_tpl h config target = find_walk h target [config] []"

section \<open>The quantization rewriter\<close>

text \<open>
  Every operation of the rewriter takes the store and gives back the store it leaves
  behind together with \<open>Inr ()\<close> when it returns or \<open>Inl e\<close> when it raises
  \<open>e\<close>. An exception leaves every mutation made before it in place, so the store is
  returned in both cases.
\<close>

type_synonym outcome = "(error + unit) \<times> heap"

definition new_QuantizationParams ::
  "QuantizationType \<Rightarrow> QuantizationMode \<Rightarrow> ActQuantizationParams option
     \<Rightarrow> WeightQuantizationParams \<Rightarrow> QuantizationParams" where
  "new_QuantizationParams qt m act w =
     \<lparr>quantization_type = qt, mode = m, act_params = act, weight_params = w\<rparr>"

definition quantize_embedding_softmax_layer_weights ::
  "heap \<Rightarrow> val \<Rightarrow> QuantizationType \<Rightarrow> QuantizationMode \<Rightarrow> WeightQuantizationParams
     \<Rightarrow> bool \<Rightarrow> outcome" where
  "quantize_embedding_softmax_layer_weights h lm_tpl qt m weight_quantization_params
       transposed_embedding_softmax =
     (case val_getattr h lm_tpl ''softmax_tpl'' of
        Inl e \<Rightarrow> (Inl e, h)
      | Inr softmax_tpl \<Rightarrow>
          (case val_cls h softmax_tpl of
             Inl e \<Rightarrow> (Inl e, h)
           | Inr c \<Rightarrow>
               if issubclass c layers_SharedEmbeddingSoftmax then
                 (let (new_softmax_tpl, h1) =
                        pax_fiddle_Config h
                          (if transposed_embedding_softmax
                           then quantization_NClassMajorSharedEmbeddingSoftmax
                           else quantization_SharedEmbeddingSoftmax)
                          [(''quantization'', VQuant (new_QuantizationParams qt m
                              default_act_params weight_quantization_params))]
                  in case copy_fields_from h1 (VCfg new_softmax_tpl) softmax_tpl of
                       Inl e \<Rightarrow> (Inl e, h1)
                     | Inr h2 \<Rightarrow>
                         (case val_setattr h2 lm_tpl ''softmax_tpl'' (VCfg new_softmax_tpl) of
                            Inl e \<Rightarrow> (Inl e, h2)
                          | Inr h3 \<Rightarrow> (Inr (), h3)))
               else
                 (Inl (ValueError (''lm_tpl.softmax_tpl.cls is : '' @ class_str c
                    @ ''but has to be layers.SharedEmbeddingSoftmax'')), h)))"

definition quantize_ngrammer_embedding_weights ::
  "heap \<Rightarrow> val \<Rightarrow> QuantizationType \<Rightarrow> QuantizationMode \<Rightarrow> WeightQuantizationParams
     \<Rightarrow> outcome" where
  "quantize_ngrammer_embedding_weights h lm_tpl qt m weight_quantization_params =
     (case val_getattr h lm_tpl ''ngrammer_tpl'' of
        Inl e \<Rightarrow> (Inl e, h)
      | Inr ngrammer_tpl \<Rightarrow>
          if ngrammer_tpl = VNone then (Inr (), h)
          else
            (case val_cls h ngrammer_tpl of
               Inl e \<Rightarrow> (Inl e, h)
             | Inr c \<Rightarrow>
                 (case (if issubclass c layers_ngrammer_Ngrammer
                          then Some quantization_Ngrammer
                        else if issubclass c layers_ngrammer_VQNgrammer
                          then Some quantization_VQNgrammer
                        else None) of
                    None \<Rightarrow> (Inr (), h)
                  | Some new_ngrammer_cls \<Rightarrow>
                      (let (new_ngrammer_tpl, h1) =
                             pax_fiddle_Config h new_ngrammer_cls
                               [(''quantization'', VQuant (new_QuantizationParams qt m
                                   default_act_params weight_quantization_params))]
                       in case copy_fields_from h1 (VCfg new_ngrammer_tpl) ngrammer_tpl of
                            Inl e \<Rightarrow> (Inl e, h1)
                          | Inr h2 \<Rightarrow>
                              (case val_setattr h2 lm_tpl ''ngrammer_tpl''
                                      (VCfg new_ngrammer_tpl) of
                                 Inl e \<Rightarrow> (Inl e, h2)
                               | Inr h3 \<Rightarrow> (Inr (), h3))))))"

definition quantize_dot_product_attention_layer_weights ::
  "heap \<Rightarrow> val \<Rightarrow> QuantizationType \<Rightarrow> QuantizationMode \<Rightarrow> WeightQuantizationParams
     \<Rightarrow> ActQuantizationParams option \<Rightarrow> outcome" where
  "quantize_dot_product_attention_layer_weights h attn_tpl qt m weight_quantization_params
       act_quantization_params =
     (let (proj, h1) =
            pax_fiddle_Config h quantization_AttentionProjection
              [(''quantization'', VQuant (new_QuantizationParams qt m
                  act_quantization_params weight_quantization_params))]
      in case val_setattr h1 attn_tpl ''proj_tpl'' (VCfg proj) of
           Inl e \<Rightarrow> (Inl e, h1)
         | Inr h2 \<Rightarrow>
             (let (qkv, h3) =
                    pax_fiddle_Config h2 quantization_attentions_CombinedQKVProjectionLayer
                      [(''quantization'', VQuant (new_QuantizationParams qt m
                          act_quantization_params weight_quantization_params))]
              in case val_setattr h3 attn_tpl ''combined_qkv_proj_tpl'' (VCfg qkv) of
                   Inl e \<Rightarrow> (Inl e, h3)
                 | Inr h4 \<Rightarrow> (Inr (), h4)))"

definition quantize_mq_dot_product_attention_layer_weights ::
  "heap \<Rightarrow> val \<Rightarrow> QuantizationType \<Rightarrow> QuantizationMode \<Rightarrow> WeightQuantizationParams
     \<Rightarrow> ActQuantizationParams option \<Rightarrow> outcome" where
  "quantize_mq_dot_product_attention_layer_weights h attn_tpl qt m weight_quantization_params
       act_quantization_params =
     (let (proj, h1) =
            pax_fiddle_Config h quantization_AttentionProjection
              [(''quantization'', VQuant (new_QuantizationParams qt m
                  act_quantization_params weight_quantization_params))]
      in case val_setattr h1 attn_tpl ''proj_tpl'' (VCfg proj) of
           Inl e \<Rightarrow> (Inl e, h1)
         | Inr h2 \<Rightarrow>
             (let (headless, h3) =
                    pax_fiddle_Config h2
                      quantization_multi_query_attention_OneHeadedAttentionProjection
                      [(''quantization'', VQuant (new_QuantizationParams qt m
                          act_quantization_params weight_quantization_params))]
              in case val_setattr h3 attn_tpl ''headless_proj_tpl'' (VCfg headless) of
                   Inl e \<Rightarrow> (Inl e, h3)
                 | Inr h4 \<Rightarrow> (Inr (), h4)))"

definition quantize_attention_layer_weights ::
  "heap \<Rightarrow> val \<Rightarrow> QuantizationType \<Rightarrow> QuantizationMode \<Rightarrow> WeightQuantizationParams
     \<Rightarrow> ActQuantizationParams option \<Rightarrow> outcome" where
  "quantize_attention_layer_weights h tr_tpl qt m weight_quantization_params
       act_quantization_params =
     (case val_getattr h tr_tpl ''tr_atten_tpl'' of
        Inl e \<Rightarrow> (Inl e, h)
      | Inr tr_atten_tpl \<Rightarrow>
          (case val_cls h tr_atten_tpl of
             Inl e \<Rightarrow> (Inl e, h)
           | Inr c \<Rightarrow>
               if issubclass c layers_attentions_DotProductAttention then
                 quantize_dot_product_attention_layer_weights h tr_atten_tpl qt m
                   weight_quantization_params act_quantization_params
               else if str_in ''MultiQueryDotProductAttention'' (cls_name c) then
                 quantize_mq_dot_product_attention_layer_weights h tr_atten_tpl qt m
                   weight_quantization_params act_quantization_params
               else
                 (Inl (ValueError (''tr_tpl.tr_atten_tpl.cls is : '' @ class_str c
                    @ ''but has to be DotProductAttention or MultiQueryDotProductAttention'')),
                  h)))"

definition quantize_transformer_feed_forward_layer_weights ::
  "heap \<Rightarrow> val \<Rightarrow> QuantizationType \<Rightarrow> QuantizationMode \<Rightarrow> WeightQuantizationParams
     \<Rightarrow> ActQuantizationParams option \<Rightarrow> int \<Rightarrow> outcome" where
  "quantize_transformer_feed_forward_layer_weights h tr_fflayer_tpl qt m
       weight_quantization_params act_quantization_params rank =
     (let (linear, h1) =
            pax_fiddle_Config h quantization_Linear
              [(''quantization'', VQuant (new_QuantizationParams qt m
                  act_quantization_params weight_quantization_params)),
               (''rank'', VInt rank)]
      in case val_getattr h1 tr_fflayer_tpl ''fflayer_tpl'' of
           Inl e \<Rightarrow> (Inl e, h1)
         | Inr fflayer_tpl \<Rightarrow>
             (case val_setattr h1 fflayer_tpl ''linear_tpl'' (VCfg linear) of
                Inl e \<Rightarrow> (Inl e, h1)
              | Inr h2 \<Rightarrow> (Inr (), h2)))"

definition quantize_transformer_layer_weights ::
  "heap \<Rightarrow> val \<Rightarrow> QuantizationType \<Rightarrow> QuantizationMode \<Rightarrow> WeightQuantizationParams
     \<Rightarrow> ActQuantizationParams option \<Rightarrow> bool \<Rightarrow> int \<Rightarrow> outcome" where
  "quantize_transformer_layer_weights h tr_tpl qt m weight_quantization_params
       act_quantization_params linear_only rank =
     (case (if \<not> linear_only
            then quantize_attention_layer_weights h tr_tpl qt m
                   weight_quantization_params act_quantization_params
            else (Inr (), h)) of
        (Inl e, h1) \<Rightarrow> (Inl e, h1)
      | (Inr _, h1) \<Rightarrow>
          (case val_getattr h1 tr_tpl ''tr_fflayer_tpl'' of
             Inl e \<Rightarrow> (Inl e, h1)
           | Inr tr_fflayer_tpl \<Rightarrow>
               quantize_transformer_feed_forward_layer_weights h1 tr_fflayer_tpl qt m
                 weight_quantization_params act_quantization_params rank))"

text \<open>
  The \<open>for\<close> loops of \<open>set_transformer_quantization\<close> and
  \<open>set_diffusion_quantization\<close> over the matched nodes. The first exception ends
  the loop.
\<close>

fun quantize_transformer_tpls ::
  "heap \<Rightarrow> addr list \<Rightarrow> QuantizationType \<Rightarrow> QuantizationMode \<Rightarrow> WeightQuantizationParams
     \<Rightarrow> ActQuantizationParams option \<Rightarrow> bool \<Rightarrow> int \<Rightarrow> outcome" where
  "quantize_transformer_tpls h [] qt m wp ap linear_only rank = (Inr (), h)"
| "quantize_transformer_tpls h (transformer_tpl # rest) qt m wp ap linear_only rank =
     (case quantize_transformer_layer_weights h (VCfg transformer_tpl) qt m wp ap
             linear_only rank of
        (Inl e, h1) \<Rightarrow> (Inl e, h1)
      | (Inr _, h1) \<Rightarrow> quantize_transformer_tpls h1 rest qt m wp ap linear_only rank)"

definition quantize_lm_tpl ::
  "heap \<Rightarrow> val \<Rightarrow> QuantizationType \<Rightarrow> QuantizationMode \<Rightarrow> WeightQuantizationParams
     \<Rightarrow> bool \<Rightarrow> bool \<Rightarrow> bool \<Rightarrow> outcome" where
  "quantize_lm_tpl h lm_tpl qt m wp quantize_embedding_softmax transposed_embedding_softmax
       quantize_ngrammer_embedding =
     (case (if quantize_embedding_softmax
            then quantize_embedding_softmax_layer_weights h lm_tpl qt m wp
                   transposed_embedding_softmax
            else (Inr (), h)) of
        (Inl e, h1) \<Rightarrow> (Inl e, h1)
      | (Inr _, h1) \<Rightarrow>
          if quantize_ngrammer_embedding
          then quantize_ngrammer_embedding_weights h1 lm_tpl qt m wp
          else (Inr (), h1))"

fun quantize_lm_tpls ::
  "heap \<Rightarrow> addr list \<Rightarrow> QuantizationType \<Rightarrow> QuantizationMode \<Rightarrow> WeightQuantizationParams
     \<Rightarrow> bool \<Rightarrow> bool \<Rightarrow> bool \<Rightarrow> outcome" where
  "quantize_lm_tpls h [] qt m wp qes tes qne = (Inr (), h)"
| "quantize_lm_tpls h (lm_tpl # rest) qt m wp qes tes qne =
     (case quantize_lm_tpl h (VCfg lm_tpl) qt m wp qes tes qne of
        (Inl e, h1) \<Rightarrow> (Inl e, h1)
      | (Inr _, h1) \<Rightarrow> quantize_lm_tpls h1 rest qt m wp qes tes qne)"

definition set_transformer_quantization ::
  "heap \<Rightarrow> val \<Rightarrow> QuantizationType \<Rightarrow> QuantizationMode \<Rightarrow> int \<Rightarrow> bool \<Rightarrow> bool \<Rightarrow> int
     \<Rightarrow> bool \<Rightarrow> bool \<Rightarrow> bool \<Rightarrow> bool \<Rightarrow> jnp_dtype \<Rightarrow> int \<Rightarrow> bool \<Rightarrow> jnp_dtype \<Rightarrow> outcome" where
  "set_transformer_quantization h config qt m num_bits linear_only use_symmetric' rank
       weight_quant_only quantize_embedding_softmax transposed_embedding_softmax
       quantize_ngrammer_embedding dtype' block_size' use_int4_packed_weights'
       int4_packed_weights_container_dtype' =
     (let weight_quantization_params =
            \<lparr>precision = num_bits, use_symmetric = use_symmetric', dtype = dtype',
             block_size = block_size', use_int4_packed_weights = use_int4_packed_weights',
             int4_packed_weights_container_dtype = int4_packed_weights_container_dtype'\<rparr>;
          act_quantization_params =
            (if weight_quant_only then None else Some \<lparr>act_precision = num_bits\<rparr>);
          transformer_tpls = find_target_tpl h config layers_transformers_Transformer
      in case quantize_transformer_tpls h transformer_tpls qt m weight_quantization_params
                act_quantization_params linear_only rank of
           (Inl e, h1) \<Rightarrow> (Inl e, h1)
         | (Inr _, h1) \<Rightarrow>
             if quantize_embedding_softmax \<or> quantize_ngrammer_embedding
             then quantize_lm_tpls h1 (find_target_tpl h1 config layers_TransformerLm) qt m
                    weight_quantization_params quantize_embedding_softmax
                    transposed_embedding_softmax quantize_ngrammer_embedding
             else (Inr (), h1))"

definition quantize_diffusion_tpl ::
  "heap \<Rightarrow> val \<Rightarrow> QuantizationType \<Rightarrow> QuantizationMode \<Rightarrow> WeightQuantizationParams
     \<Rightarrow> ActQuantizationParams option \<Rightarrow> outcome" where
  "quantize_diffusion_tpl h diffusion_tpl qt m wp ap =
     (if val_hasattr h diffusion_tpl ''conv_tpl''
      then (let (conv, h1) =
                  pax_fiddle_Config h quantization_Conv2D
                    [(''quantization'', VQuant (new_QuantizationParams qt m ap wp))]
            in case val_setattr h1 diffusion_tpl ''conv_tpl'' (VCfg conv) of
                 Inl e \<Rightarrow> (Inl e, h1)
               | Inr h2 \<Rightarrow> (Inr (), h2))
      else (Inr (), h))"

fun quantize_diffusion_tpls ::
  "heap \<Rightarrow> addr list \<Rightarrow> QuantizationType \<Rightarrow> QuantizationMode \<Rightarrow> WeightQuantizationParams
     \<Rightarrow> ActQuantizationParams option \<Rightarrow> outcome" where
  "quantize_diffusion_tpls h [] qt m wp ap = (Inr (), h)"
| "quantize_diffusion_tpls h (diffusion_tpl # rest) qt m wp ap =
     (case quantize_diffusion_tpl h (VCfg diffusion_tpl) qt m wp ap of
        (Inl e, h1) \<Rightarrow> (Inl e, h1)
      | (Inr _, h1) \<Rightarrow> quantize_diffusion_tpls h1 rest qt m wp ap)"

definition set_diffusion_quantization ::
  "heap \<Rightarrow> val \<Rightarrow> pyclass \<Rightarrow> QuantizationType \<Rightarrow> QuantizationMode \<Rightarrow> int \<Rightarrow> bool \<Rightarrow> bool
     \<Rightarrow> jnp_dtype \<Rightarrow> outcome" where
  "set_diffusion_quantization h config target qt m num_bits use_symmetric' weight_quant_only
       dtype' =
     (let weight_quantization_params =
            \<lparr>precision = num_bits, use_symmetric = use_symmetric', dtype = dtype',
             block_size = default_block_size,
             use_int4_packed_weights = default_use_int4_packed_weights,
             int4_packed_weights_container_dtype = default_int4_packed_weights_container_dtype\<rparr>;
          act_quantization_params =
            (if weight_quant_only then None else Some \<lparr>act_precision = num_bits\<rparr>)
      in quantize_diffusion_tpls h (find_target_tpl h config target) qt m
           weight_quantization_params act_quantization_params)"

subsection \<open>The decorators\<close>

text \<open>
  \<open>for_transformer\<close> and \<open>for_diffusion\<close> wrap a class whose \<open>task\<close> method
  builds the task configuration. The \<open>task\<close> of the wrapper calls it first
  (\<open>super_task\<close>, which may allocate in the store and may raise), then asserts the bit
  width, then collects the models and quantizes each. The task configuration and the
  checkpoint rules are nodes of the store; \<open>init_from_checkpoint_rules\<close> is a
  dictionary.
\<close>

type_synonym task_outcome = "(error + val) \<times> heap"

fun checkpoint_models :: "heap \<Rightarrow> (string \<times> val) list \<Rightarrow> error + val list" where
  "checkpoint_models h [] = Inr []"
| "checkpoint_models h ((name, ckpt_rules) # rest) =
     (case val_getattr h ckpt_rules ''task_p'' of
        Inl e \<Rightarrow> Inl e
      | Inr task_p \<Rightarrow>
          (case val_getattr h task_p ''model'' of
             Inl e \<Rightarrow> Inl e
           | Inr model \<Rightarrow>
               (case checkpoint_models h rest of
                  Inl e \<Rightarrow> Inl e
                | Inr models \<Rightarrow> Inr (model # models))))"

definition task_models :: "heap \<Rightarrow> val \<Rightarrow> bool \<Rightarrow> error + val list" where
  "task_models h task_p quantize_init_from_checkpoint_rules_task =
     (case val_getattr h task_p ''model'' of
        Inl e \<Rightarrow> Inl e
      | Inr model \<Rightarrow>
          if quantize_init_from_checkpoint_rules_task
             \<and> val_hasattr h task_p ''train''
             \<and> (case val_getattr h task_p ''train'' of
                   Inl e \<Rightarrow> False
                 | Inr train \<Rightarrow> val_hasattr h train ''init_from_checkpoint_rules'')
          then
            (case val_getattr h task_p ''train'' of
               Inl e \<Rightarrow> Inl e
             | Inr train \<Rightarrow>
                 (case val_getattr h train ''init_from_checkpoint_rules'' of
                    Inl e \<Rightarrow> Inl e
                  | Inr (VDict rules) \<Rightarrow>
                      (case checkpoint_models h rules of
                         Inl e \<Rightarrow> Inl e
                       | Inr models \<Rightarrow> Inr (model # models))
                  | Inr _ \<Rightarrow> Inl (AttributeError ''items'')))
          else Inr [model])"

fun quantize_transformer_models ::
  "heap \<Rightarrow> val list \<Rightarrow> QuantizationType \<Rightarrow> QuantizationMode \<Rightarrow> int \<Rightarrow> bool \<Rightarrow> bool \<Rightarrow> int
     \<Rightarrow> bool \<Rightarrow> bool \<Rightarrow> bool \<Rightarrow> bool \<Rightarrow> jnp_dtype \<Rightarrow> int \<Rightarrow> outcome" where
  "quantize_transformer_models h [] qt m num_bits linear_only us rank wqo qes tes qne dt bs
     = (Inr (), h)"
| "quantize_transformer_models h (model # rest) qt m num_bits linear_only us rank wqo qes tes
       qne dt bs =
     (case set_transformer_quantization h model qt m num_bits linear_only us rank wqo qes tes
             qne dt bs True Jnp_int32 of
        (Inl e, h1) \<Rightarrow> (Inl e, h1)
      | (Inr _, h1) \<Rightarrow>
          quantize_transformer_models h1 rest qt m num_bits linear_only us rank wqo qes tes
            qne dt bs)"

definition for_transformer_task ::
  "(heap \<Rightarrow> task_outcome) \<Rightarrow> heap \<Rightarrow> int \<Rightarrow> QuantizationType \<Rightarrow> QuantizationMode \<Rightarrow> bool
     \<Rightarrow> int \<Rightarrow> bool \<Rightarrow> bool \<Rightarrow> bool \<Rightarrow> bool \<Rightarrow> bool \<Rightarrow> jnp_dtype \<Rightarrow> bool \<Rightarrow> int
     \<Rightarrow> task_outcome" where
  "for_transformer_task super_task h num_bits qt m use_symmetric' rank weight_quant_only
       quantize_embedding_softmax transposed_embedding_softmax quantize_ngrammer_embedding
       linear_only dtype' quantize_init_from_checkpoint_rules_task block_size' =
     (case super_task h of
        (Inl e, h1) \<Rightarrow> (Inl e, h1)
      | (Inr task_p, h1) \<Rightarrow>
          if num_bits \<notin> set [2, 4, 8] then (Inl AssertionError, h1)
          else
            (case task_models h1 task_p quantize_init_from_checkpoint_rules_task of
               Inl e \<Rightarrow> (Inl e, h1)
             | Inr models \<Rightarrow>
                 (case quantize_transformer_models h1 models qt m num_bits linear_only
                         use_symmetric' rank weight_quant_only quantize_embedding_softmax
                         transposed_embedding_softmax quantize_ngrammer_embedding dtype'
                         block_size' of
                    (Inl e, h2) \<Rightarrow> (Inl e, h2)
                  | (Inr _, h2) \<Rightarrow> (Inr task_p, h2))))"

fun quantize_diffusion_models ::
  "heap \<Rightarrow> val list \<Rightarrow> pyclass \<Rightarrow> QuantizationType \<Rightarrow> QuantizationMode \<Rightarrow> int \<Rightarrow> bool
     \<Rightarrow> bool \<Rightarrow> jnp_dtype \<Rightarrow> outcome" where
  "quantize_diffusion_models h [] target qt m num_bits us wqo dt = (Inr (), h)"
| "quantize_diffusion_models h (model # rest) target qt m num_bits us wqo dt =
     (case set_diffusion_quantization h model target qt m num_bits us wqo dt of
        (Inl e, h1) \<Rightarrow> (Inl e, h1)
      | (Inr _, h1) \<Rightarrow> quantize_diffusion_models h1 rest target qt m num_bits us wqo dt)"

definition for_diffusion_task ::
  "(heap \<Rightarrow> task_outcome) \<Rightarrow> heap \<Rightarrow> pyclass \<Rightarrow> int \<Rightarrow> QuantizationType \<Rightarrow> QuantizationMode
     \<Rightarrow> bool \<Rightarrow> jnp_dtype \<Rightarrow> bool \<Rightarrow> bool \<Rightarrow> task_outcome" where
  "for_diffusion_task super_task h target num_bits qt m use_symmetric' dtype'
       weight_quant_only quantize_init_from_checkpoint_rules_task =
     (case super_task h of
        (Inl e, h1) \<Rightarrow> (Inl e, h1)
      | (Inr task_p, h1) \<Rightarrow>
          if num_bits \<notin> set [2, 4, 8] then (Inl AssertionError, h1)
          else
            (case task_models h1 task_p quantize_init_from_checkpoint_rules_task of
               Inl e \<Rightarrow> (Inl e, h1)
             | Inr models \<Rightarrow>
                 (case quantize_diffusion_models h1 models target qt m num_bits use_symmetric'
                         weight_quant_only dtype' of
                    (Inl e, h2) \<Rightarrow> (Inl e, h2)
                  | (Inr _, h2) \<Rightarrow> (Inr task_p, h2))))"

subsection \<open>Inference mode\<close>

text \<open>
  \<open>set_inference_mode\<close> keeps a list \<open>to_process\<close>, takes its last element,
  treats a sequence (a string too: a sequence of one-character strings) as the list of
  its elements and anything else as a single element, sets the mode on every element that
  has a \<open>quantization\<close> attribute and appends the argument values of every element
  that is a Config. It keeps no record of the nodes it has visited, so on a store with a
  cycle the loop does not end: the loop is a partial function, and \<open>None\<close> stands
  for a call that does not return.

  The quantization parameters of a node are a value held by the node, so
  \<open>tpl.quantization.mode = INFERENCE\<close> replaces that value by the same value with
  the mode changed. When the \<open>quantization\<close> argument is itself a Config node, the
  assignment sets the \<open>mode\<close> argument of that node; on any other value it raises
  AttributeError.
\<close>

definition set_quantization_mode_inference :: "heap \<Rightarrow> val \<Rightarrow> outcome" where
  "set_quantization_mode_inference h tpl =
     (if val_hasattr h tpl ''quantization'' then
        (case val_getattr h tpl ''quantization'' of
           Inl e \<Rightarrow> (Inl e, h)
         | Inr (VQuant qp) \<Rightarrow>
             (case val_setattr h tpl ''quantization'' (VQuant (qp\<lparr>mode := INFERENCE\<rparr>)) of
                Inl e \<Rightarrow> (Inl e, h)
              | Inr h1 \<Rightarrow> (Inr (), h1))
         | Inr (VCfg q) \<Rightarrow>
             (case val_setattr h (VCfg q) ''mode'' (VMode INFERENCE) of
                Inl e \<Rightarrow> (Inl e, h)
              | Inr h1 \<Rightarrow> (Inr (), h1))
         | Inr _ \<Rightarrow> (Inl (AttributeError ''mode''), h))
      else (Inr (), h))"

definition params_of :: "val \<Rightarrow> val list" where
  "params_of param =
     (case param of
        VSeq vs \<Rightarrow> vs
      | VStr s \<Rightarrow> map (\<lambda>c. VStr [c]) s
      | _ \<Rightarrow> [param])"

definition ordered_arguments_values :: "heap \<Rightarrow> val \<Rightarrow> val list" where
  "ordered_arguments_values h param_elem =
     (case param_elem of
        VCfg a \<Rightarrow> (if a < length h then map snd (args (h ! a)) else [])
      | _ \<Rightarrow> [])"

fun for_param_elems :: "heap \<Rightarrow> val list \<Rightarrow> val list \<Rightarrow> (error + val list) \<times> heap" where
  "for_param_elems h [] to_process = (Inr to_process, h)"
| "for_param_elems h (param_elem # rest) to_process =
     (case set_quantization_mode_inference h param_elem of
        (Inl e, h1) \<Rightarrow> (Inl e, h1)
      | (Inr _, h1) \<Rightarrow>
          for_param_elems h1 rest (to_process @ ordered_arguments_values h1 param_elem))"

partial_function (option) set_inference_mode_loop :: "heap \<Rightarrow> val list \<Rightarrow> outcome option" where
  "set_inference_mode_loop h to_process =
     (if to_process = [] then Some (Inr (), h)
      else
        (case for_param_elems h (params_of (last to_process)) (butlast to_process) of
           (Inl e, h1) \<Rightarrow> Some (Inl e, h1)
         | (Inr to_process1, h1) \<Rightarrow> set_inference_mode_loop h1 to_process1))"

declare set_inference_mode_loop.simps [code]

definition set_inference_mode :: "heap \<Rightarrow> val \<Rightarrow> outcome option" where
  "set_inference_mode h config = set_inference_mode_loop h [config]"

section \<open>Building instances\<close>

text \<open>
  Instances live in a store of their own, and the identity of an instance is its address
  there. A field of an instance holds a value that was not built (a primitive, or a
  template kept as a template), a reference to an instance, or a sequence of such.
\<close>

datatype ival =
    IPrim val
  | IObj addr
  | ISeq "ival list"

datatype obj = Obj (obj_cls: pyclass) (obj_fields: "(string \<times> ival) list")

type_synonym objs = "obj list"

type_synonym memo = "(addr \<times> addr) list"

text \<open>
  Modelled from the spec: \<open>pax_fiddle.build\<close> is not part of the source files. Building a
  node builds its arguments first, in order and depth first, and then makes the instance
  of the node's class from the built arguments. One call keeps a memo from the nodes it
  has built to their instances, so that a node met again in the same call gives the
  instance already built; every call starts from the empty memo. The argument of a
  template field is not built: the instance holds the template itself, as the
  expectations of \<open>test_build_default_fleet_config\<close> show. A sequence is built element
  by element; a dictionary is not an argument value of the spec's data model and is kept
  as it is. An argument still at the unset sentinel raises MissingArgument. A node that
  contains itself would be built without end, which Python stops with a RecursionError;
  the model raises it when it meets a node that is still under construction.
\<close>

function (sequential) build_val ::
  "(pyclass \<Rightarrow> string \<Rightarrow> bool) \<Rightarrow> heap \<Rightarrow> addr list \<Rightarrow> memo \<times> objs \<Rightarrow> val \<Rightarrow>
   error + ival \<times> memo \<times> objs"
and build_seq ::
  "(pyclass \<Rightarrow> string \<Rightarrow> bool) \<Rightarrow> heap \<Rightarrow> addr list \<Rightarrow> memo \<times> objs \<Rightarrow> val list \<Rightarrow>
   error + ival list \<times> memo \<times> objs"
and build_args ::
  "(pyclass \<Rightarrow> string \<Rightarrow> bool) \<Rightarrow> heap \<Rightarrow> addr list \<Rightarrow> memo \<times> objs \<Rightarrow> pyclass \<Rightarrow>
   (string \<times> val) list \<Rightarrow> error + (string \<times> ival) list \<times> memo \<times> objs" where
  "build_val tf h stack st (VCfg a) =
     (case map_of (fst st) a of
        Some i \<Rightarrow> Inr (IObj i, st)
      | None \<Rightarrow>
          (case heap_get h a of
             None \<Rightarrow> Inl (DanglingReference a)
           | Some n \<Rightarrow>
               (if a \<in> set stack then Inl RecursionError
                else
                  (case build_args tf h (a # stack) st (cls n) (args n) of
                     Inl e \<Rightarrow> Inl e
                   | Inr (fs, st1) \<Rightarrow>
                       Inr (IObj (length (snd st1)),
                            (a, length (snd st1)) # fst st1,
                            snd st1 @ [Obj (cls n) fs])))))"
| "build_val tf h stack st (VSeq vs) =
     (case build_seq tf h stack st vs of
        Inl e \<Rightarrow> Inl e
      | Inr (ys, st1) \<Rightarrow> Inr (ISeq ys, st1))"
| "build_val tf h stack st v = Inr (IPrim v, st)"
| "build_seq tf h stack st [] = Inr ([], st)"
| "build_seq tf h stack st (v # vs) =
     (case build_val tf h stack st v of
        Inl e \<Rightarrow> Inl e
      | Inr (i, st1) \<Rightarrow>
          (case build_seq tf h stack st1 vs of
             Inl e \<Rightarrow> Inl e
           | Inr (ys, st2) \<Rightarrow> Inr (i # ys, st2)))"
| "build_args tf h stack st c [] = Inr ([], st)"
| "build_args tf h stack st c ((k, v) # kvs) =
     (if v = VUnset then Inl (MissingArgument k)
      else
        (case (if tf c k then Inr (IPrim v, st) else build_val tf h stack st v) of
           Inl e \<Rightarrow> Inl e
         | Inr (i, st1) \<Rightarrow>
             (case build_args tf h stack st1 c kvs of
                Inl e \<Rightarrow> Inl e
              | Inr (fs, st2) \<Rightarrow> Inr ((k, i) # fs, st2))))"
  by pat_completeness auto

termination build_val
proof (relation "inv_image (less_than <*lex*> less_than)
        (\<lambda>x. case x of
           Inl (tf, h, stack, st, v) \<Rightarrow>
             (length h - card (set stack \<inter> {..<length h}), size v)
         | Inr (Inl (tf, h, stack, st, vs)) \<Rightarrow>
             (length h - card (set stack \<inter> {..<length h}), size_list size vs)
         | Inr (Inr (tf, h, stack, st, c, kvs)) \<Rightarrow>
             (length h - card (set stack \<inter> {..<length h}),
              size_list (\<lambda>kv. size (snd kv)) kvs))", goal_cases)
  case 1
  show ?case by (intro wf_inv_image wf_lex_prod wf_less_than)
next
  case (2 tf h stack st a n)
  then have "a < length h" by (simp add: heap_get_def split: if_splits)
  with 2 show ?case using card_seen_less [of a "length h" stack] by simp
qed auto

text \<open>
  Modelled from the spec: one call of \<open>pax_fiddle.build\<close> starts with the empty memo and
  with no node under construction, and returns the built value and the store.
\<close>

definition pax_fiddle_build ::
  "(pyclass \<Rightarrow> string \<Rightarrow> bool) \<Rightarrow> heap \<Rightarrow> objs \<Rightarrow> val \<Rightarrow> error + ival \<times> objs" where
  "pax_fiddle_build tf h objs v =
     (case build_val tf h [] ([], objs) v of
        Inl e \<Rightarrow> Inl e
      | Inr (i, memo, objs') \<Rightarrow> Inr (i, objs'))"

subsection \<open>The classes of \<open>pax_fiddle_test\<close>\<close>

text \<open>
  The dataclasses of the test file. \<open>Vehicle.wheel_tpl\<close> and \<open>Fleet.vehicle_tpl\<close> are
  declared with \<open>template_field\<close>, \<open>Vehicle.owner\<close> and \<open>Fleet.manager\<close> with
  \<open>sub_field\<close>.
\<close>

definition Wheel :: pyclass where
  "Wheel = PyClass ''pax_fiddle_test'' ''Wheel'' []"

definition ColoredWheel :: pyclass where
  "ColoredWheel = PyClass ''pax_fiddle_test'' ''ColoredWheel'' [Wheel]"

definition Person :: pyclass where
  "Person = PyClass ''pax_fiddle_test'' ''Person'' []"

definition Vehicle :: pyclass where
  "Vehicle = PyClass ''pax_fiddle_test'' ''Vehicle'' []"

definition Fleet :: pyclass where
  "Fleet = PyClass ''pax_fiddle_test'' ''Fleet'' []"

definition is_template_field :: "pyclass \<Rightarrow> string \<Rightarrow> bool" where
  "is_template_field c k =
     ((issubclass c Vehicle \<and> k = ''wheel_tpl'') \<or> (issubclass c Fleet \<and> k = ''vehicle_tpl''))"

text \<open>
  Attribute access on an instance, and \<open>pax_fiddle.build\<close> applied to the value of a
  field: a template is built, any other value is given back as it is.
\<close>

definition obj_getattr :: "objs \<Rightarrow> ival \<Rightarrow> string \<Rightarrow> error + ival" where
  "obj_getattr objs self k =
     (case self of
        IObj i \<Rightarrow>
          (if i < length objs
           then (case map_of (obj_fields (objs ! i)) k of
                   None \<Rightarrow> Inl (AttributeError k)
                 | Some y \<Rightarrow> Inr y)
           else Inl (DanglingReference i))
      | _ \<Rightarrow> Inl (AttributeError k))"

definition obj_setattr :: "objs \<Rightarrow> ival \<Rightarrow> string \<Rightarrow> ival \<Rightarrow> error + objs" where
  "obj_setattr objs self k y =
     (case self of
        IObj i \<Rightarrow>
          (if i < length objs
           then Inr (objs[i := Obj (obj_cls (objs ! i)) (AList.update k y (obj_fields (objs ! i)))])
           else Inl (DanglingReference i))
      | _ \<Rightarrow> Inl (AttributeError k))"

definition build_field ::
  "(pyclass \<Rightarrow> string \<Rightarrow> bool) \<Rightarrow> heap \<Rightarrow> objs \<Rightarrow> ival \<Rightarrow> error + ival \<times> objs" where
  "build_field tf h objs y =
     (case y of
        IPrim v \<Rightarrow> pax_fiddle_build tf h objs v
      | _ \<Rightarrow> Inr (y, objs))"

text \<open>
  The \<open>setup\<close> methods. \<open>Wheel.setup\<close> and \<open>Person.setup\<close> return the instance.
  \<open>Vehicle.setup\<close> and \<open>Fleet.setup\<close> assert that the collection is still None, build
  the template once per element with a separate call of \<open>pax_fiddle.build\<close>, call
  \<open>setup\<close> on each result and store the list. The call of \<open>setup\<close> on a built value is
  resolved by the class of the value at run time; it is a parameter of the two methods,
  and \<open>call_setup\<close> resolves it. The nesting of these calls is not bounded by the
  source (a Fleet whose vehicle template is the Fleet's own template never returns), so
  \<open>call_setup\<close> counts the nesting down and None stands for a call that does not
  return.
\<close>

definition range_of :: "ival \<Rightarrow> error + nat" where
  "range_of y =
     (case y of
        IPrim (VInt n) \<Rightarrow> Inr (nat n)
      | IPrim (VBool b) \<Rightarrow> Inr (if b then 1 else 0)
      | _ \<Rightarrow> Inl (TypeError ''object cannot be interpreted as an integer''))"

type_synonym bound_method = "objs \<Rightarrow> ival \<Rightarrow> (error + ival \<times> objs) option"

primrec build_and_setup ::
  "bound_method \<Rightarrow> (pyclass \<Rightarrow> string \<Rightarrow> bool) \<Rightarrow> heap \<Rightarrow> ival \<Rightarrow> string \<Rightarrow> nat \<Rightarrow> objs \<Rightarrow>
   (error + ival list \<times> objs) option" where
  "build_and_setup call tf h self tpl 0 objs = Some (Inr ([], objs))"
| "build_and_setup call tf h self tpl (Suc n) objs =
     (case obj_getattr objs self tpl of
        Inl e \<Rightarrow> Some (Inl e)
      | Inr t \<Rightarrow>
          (case build_field tf h objs t of
             Inl e \<Rightarrow> Some (Inl e)
           | Inr (x, objs1) \<Rightarrow>
               (case call objs1 x of
                  None \<Rightarrow> None
                | Some (Inl e) \<Rightarrow> Some (Inl e)
                | Some (Inr (x', objs2)) \<Rightarrow>
                    (case build_and_setup call tf h self tpl n objs2 of
                       None \<Rightarrow> None
                     | Some (Inl e) \<Rightarrow> Some (Inl e)
                     | Some (Inr (xs, objs3)) \<Rightarrow> Some (Inr (x' # xs, objs3))))))"

definition Wheel_setup :: bound_method where
  "Wheel_setup objs self = Some (Inr (self, objs))"

definition Person_setup :: bound_method where
  "Person_setup objs self = Some (Inr (self, objs))"

definition Vehicle_setup ::
  "bound_method \<Rightarrow> (pyclass \<Rightarrow> string \<Rightarrow> bool) \<Rightarrow> heap \<Rightarrow> bound_method" where
  "Vehicle_setup call tf h objs self =
     (case obj_getattr objs self ''wheels'' of
        Inl e \<Rightarrow> Some (Inl e)
      | Inr w \<Rightarrow>
          if w \<noteq> IPrim VNone then Some (Inl AssertionError)
          else
            (case obj_getattr objs self ''num_wheels'' of
               Inl e \<Rightarrow> Some (Inl e)
             | Inr n \<Rightarrow>
                 (case range_of n of
                    Inl e \<Rightarrow> Some (Inl e)
                  | Inr n' \<Rightarrow>
                      (case build_and_setup call tf h self ''wheel_tpl'' n' objs of
                         None \<Rightarrow> None
                       | Some (Inl e) \<Rightarrow> Some (Inl e)
                       | Some (Inr (ws, objs1)) \<Rightarrow>
                           (case obj_setattr objs1 self ''wheels'' (ISeq ws) of
                              Inl e \<Rightarrow> Some (Inl e)
                            | Inr objs2 \<Rightarrow> Some (Inr (self, objs2)))))))"

definition Fleet_setup ::
  "bound_method \<Rightarrow> (pyclass \<Rightarrow> string \<Rightarrow> bool) \<Rightarrow> heap \<Rightarrow> bound_method" where
  "Fleet_setup call tf h objs self =
     (case obj_getattr objs self ''vehicles'' of
        Inl e \<Rightarrow> Some (Inl e)
      | Inr w \<Rightarrow>
          if w \<noteq> IPrim VNone then Some (Inl AssertionError)
          else
            (case obj_getattr objs self ''num_vehicles'' of
               Inl e \<Rightarrow> Some (Inl e)
             | Inr n \<Rightarrow>
                 (case range_of n of
                    Inl e \<Rightarrow> Some (Inl e)
                  | Inr n' \<Rightarrow>
                      (case build_and_setup call tf h self ''vehicle_tpl'' n' objs of
                         None \<Rightarrow> None
                       | Some (Inl e) \<Rightarrow> Some (Inl e)
                       | Some (Inr (vs, objs1)) \<Rightarrow>
                           (case obj_setattr objs1 self ''vehicles'' (ISeq vs) of
                              Inl e \<Rightarrow> Some (Inl e)
                            | Inr objs2 \<Rightarrow> Some (Inr (self, objs2)))))))"

primrec call_setup :: "nat \<Rightarrow> (pyclass \<Rightarrow> string \<Rightarrow> bool) \<Rightarrow> heap \<Rightarrow> bound_method" where
  "call_setup 0 tf h = (\<lambda>objs self. None)"
| "call_setup (Suc fuel) tf h =
     (\<lambda>objs self.
        case self of
          IObj i \<Rightarrow>
            (if i < length objs
             then (if issubclass (obj_cls (objs ! i)) Wheel then Wheel_setup objs self
                   else if issubclass (obj_cls (objs ! i)) Person then Person_setup objs self
                   else if issubclass (obj_cls (objs ! i)) Vehicle
                     then Vehicle_setup (call_setup fuel tf h) tf h objs self
                   else if issubclass (obj_cls (objs ! i)) Fleet
                     then Fleet_setup (call_setup fuel tf h) tf h objs self
                   else Some (Inl (AttributeError ''setup'')))
             else Some (Inl (DanglingReference i)))
        | _ \<Rightarrow> Some (Inl (AttributeError ''setup'')))"

definition build_then_setup ::
  "nat \<Rightarrow> (pyclass \<Rightarrow> string \<Rightarrow> bool) \<Rightarrow> heap \<Rightarrow> objs \<Rightarrow> val \<Rightarrow> (error + ival \<times> objs) option" where
  "build_then_setup fuel tf h objs config =
     (case pax_fiddle_build tf h objs config of
        Inl e \<Rightarrow> Some (Inl e)
      | Inr (x, objs1) \<Rightarrow> call_setup fuel tf h objs1 x)"

section \<open>Example stores\<close>

text \<open>
  A language model with one transformer block: node 0 is the language model, node 1 its
  softmax template, node 2 the transformer block, node 3 its attention template with the
  projection templates 4 and 5, node 6 the feed-forward block, node 7 its feed-forward
  layer and node 8 the linear template of that layer.
\<close>

definition example_lm :: heap where
  "example_lm =
     [Node layers_TransformerLm
        [(''softmax_tpl'', VCfg 1), (''ngrammer_tpl'', VNone),
         (''stacked_transformer_tpl'', VCfg 2)],
      Node layers_SharedEmbeddingSoftmax [(''input_dims'', VInt 16), (''num_classes'', VInt 32)],
      Node layers_transformers_Transformer
        [(''tr_atten_tpl'', VCfg 3), (''tr_fflayer_tpl'', VCfg 6)],
      Node layers_attentions_DotProductAttention
        [(''proj_tpl'', VCfg 4), (''combined_qkv_proj_tpl'', VCfg 5)],
      Node layers_attentions_AttentionProjection [],
      Node layers_attentions_CombinedQKVProjectionLayer [],
      Node layers_transformers_TransformerFeedForward [(''fflayer_tpl'', VCfg 7)],
      Node layers_linears_FeedForward [(''linear_tpl'', VCfg 8)],
      Node layers_Linear [(''input_dims'', VInt 16)]]"

text \<open>A class of the user's that belongs to neither attention family, and one that is
  recognised as multi-query by its name alone.\<close>

definition user_LinearAttention :: pyclass where
  "user_LinearAttention = PyClass ''user.model'' ''LinearAttention'' [BaseLayer]"

definition user_MultiQueryDotProductAttentionV2 :: pyclass where
  "user_MultiQueryDotProductAttentionV2 =
     PyClass ''user.model'' ''MultiQueryDotProductAttentionV2'' [BaseLayer]"

definition example_lm_unrecognized :: heap where
  "example_lm_unrecognized = example_lm[3 := Node user_LinearAttention []]"

text \<open>The language model with an ngrammer template of class \<open>c\<close> as node 9.\<close>

definition example_lm_ngrammer :: "pyclass \<Rightarrow> heap" where
  "example_lm_ngrammer c =
     example_lm[0 := Node layers_TransformerLm
        [(''softmax_tpl'', VCfg 1), (''ngrammer_tpl'', VCfg 9),
         (''stacked_transformer_tpl'', VCfg 2)]]
       @ [Node c [(''ngram_vocab_size'', VInt 768)]]"

text \<open>A base \<open>task\<close> method: it builds the language model and, as node 9, a task
  configuration whose model is the language model.\<close>

definition tasks_SingleTask :: pyclass where
  "tasks_SingleTask = PyClass ''paxml.tasks_lib'' ''SingleTask'' []"

definition example_super_task :: "heap \<Rightarrow> task_outcome" where
  "example_super_task h =
     (Inr (VCfg 9), example_lm @ [Node tasks_SingleTask [(''model'', VCfg 0)]])"

text \<open>The language model with a softmax template of a class of the user's that is no
  subclass of SharedEmbeddingSoftmax.\<close>

definition user_Softmax :: pyclass where
  "user_Softmax = PyClass ''user.model'' ''AdaptiveSoftmax'' [BaseLayer]"

definition example_lm_other_softmax :: heap where
  "example_lm_other_softmax =
     example_lm[1 := Node user_Softmax [(''input_dims'', VInt 16), (''num_classes'', VInt 32)]]"

definition example_wp :: WeightQuantizationParams where
  "example_wp = \<lparr>precision = 8, use_symmetric = True, dtype = Jnp_int8, block_size = 0,
     use_int4_packed_weights = True, int4_packed_weights_container_dtype = Jnp_int32\<rparr>"

text \<open>
  A store with quantized templates in training mode. Node 0 refers to node 1 by an
  argument and to nodes 2 and 3 by a sequence-valued argument; node 4 is not reached from
  node 0. \<open>example_inferred\<close> is the same store with nodes 1 and 3 in inference mode.
\<close>

definition example_qp :: QuantizationParams where
  "example_qp = \<lparr>quantization_type = FQ, mode = TRAINING,
     act_params = Some \<lparr>act_precision = 8\<rparr>, weight_params = example_wp\<rparr>"

definition example_quantized :: heap where
  "example_quantized =
     [Node layers_TransformerLm [(''softmax_tpl'', VCfg 1), (''layers'', VSeq [VCfg 2, VCfg 3])],
      Node quantization_SharedEmbeddingSoftmax
        [(''quantization'', VQuant example_qp), (''input_dims'', VInt 16)],
      Node layers_linears_FeedForward [(''linear_tpl'', VCfg 3), (''name'', VStr ''ffn'')],
      Node quantization_Linear [(''quantization'', VQuant example_qp), (''rank'', VInt (- 1))],
      Node quantization_Linear [(''quantization'', VQuant example_qp), (''rank'', VInt 4)]]"

definition example_inferred :: heap where
  "example_inferred =
     [Node layers_TransformerLm [(''softmax_tpl'', VCfg 1), (''layers'', VSeq [VCfg 2, VCfg 3])],
      Node quantization_SharedEmbeddingSoftmax
        [(''quantization'', VQuant (example_qp\<lparr>mode := INFERENCE\<rparr>)), (''input_dims'', VInt 16)],
      Node layers_linears_FeedForward [(''linear_tpl'', VCfg 3), (''name'', VStr ''ffn'')],
      Node quantization_Linear
        [(''quantization'', VQuant (example_qp\<lparr>mode := INFERENCE\<rparr>)), (''rank'', VInt (- 1))],
      Node quantization_Linear [(''quantization'', VQuant example_qp), (''rank'', VInt 4)]]"

text \<open>
  The configuration of \<open>test_shared_vehicle_owners\<close>, with the defaults written out: the
  owner of the vehicle template is the manager's own Config node. \<open>built_fleet\<close> is its
  build, \<open>built_fleet_twice\<close> the store after a second build.
\<close>

definition shared_owner_config :: heap where
  "shared_owner_config =
     [Node Fleet [(''vehicle_tpl'', VCfg 1), (''num_vehicles'', VInt 3),
                  (''manager'', VCfg 4), (''vehicles'', VNone)],
      Node Vehicle [(''wheel_tpl'', VCfg 2), (''num_wheels'', VInt 4),
                    (''owner'', VCfg 4), (''wheels'', VNone)],
      Node Wheel [(''radius'', VInt 5)],
      Node Person [(''name'', VNone)],
      Node Person [(''name'', VStr ''Ben'')]]"

definition built_fleet :: objs where
  "built_fleet =
     [Obj Person [(''name'', IPrim (VStr ''Ben''))],
      Obj Fleet [(''vehicle_tpl'', IPrim (VCfg 1)), (''num_vehicles'', IPrim (VInt 3)),
                 (''manager'', IObj 0), (''vehicles'', IPrim VNone)]]"

definition built_fleet_twice :: objs where
  "built_fleet_twice =
     built_fleet @
     [Obj Person [(''name'', IPrim (VStr ''Ben''))],
      Obj Fleet [(''vehicle_tpl'', IPrim (VCfg 1)), (''num_vehicles'', IPrim (VInt 3)),
                 (''manager'', IObj 2), (''vehicles'', IPrim VNone)]]"


text \<open>
  The store that \<open>test_shared_vehicle_owners\<close> expects after \<open>setup\<close>: the manager and the
  fleet, then for each of the three vehicles its owner, the vehicle and its four wheels.
\<close>

definition built_vehicle :: "addr \<Rightarrow> objs" where
  "built_vehicle a =
     [Obj Person [(''name'', IPrim (VStr ''Ben''))],
      Obj Vehicle [(''wheel_tpl'', IPrim (VCfg 2)), (''num_wheels'', IPrim (VInt 4)),
                   (''owner'', IObj a), (''wheels'', ISeq (map IObj [a + 2 ..< a + 6]))]]
     @ replicate 4 (Obj Wheel [(''radius'', IPrim (VInt 5))])"

definition shared_owner_fleet :: objs where
  "shared_owner_fleet =
     [Obj Person [(''name'', IPrim (VStr ''Ben''))],
      Obj Fleet [(''vehicle_tpl'', IPrim (VCfg 1)), (''num_vehicles'', IPrim (VInt 3)),
                 (''manager'', IObj 0), (''vehicles'', ISeq [IObj 3, IObj 9, IObj 15])]]
     @ built_vehicle 2 @ built_vehicle 8 @ built_vehicle 14"

definition listed_vehicles_config :: heap where
  "listed_vehicles_config =
     [Node Fleet [(''vehicle_tpl'', VCfg 1), (''num_vehicles'', VInt 2),
                  (''manager'', VCfg 3), (''vehicles'', VSeq [VCfg 1, VCfg 1])],
      Node Vehicle [(''wheel_tpl'', VCfg 2), (''num_wheels'', VInt 4),
                    (''owner'', VCfg 3), (''wheels'', VNone)],
      Node Wheel [(''radius'', VInt 5)],
      Node Person [(''name'', VStr ''Ben'')]]"

section \<open>Attention dispatch\<close>

lemma map_of_update:
  "map_of (AList.update k v al) k' = (if k' = k then Some v else map_of al k')"
  by (simp add: update_conv')

lemma quantize_attention_layer_weights_eq:
  assumes atten: "val_getattr h tr_tpl ''tr_atten_tpl'' = Inr (VCfg a)"
    and valid: "a < length h"
  shows "quantize_attention_layer_weights h tr_tpl qt m wp ap =
     (let c = cls (h ! a);
          q = VQuant (new_QuantizationParams qt m ap wp);
          proj = Node quantization_AttentionProjection [(''quantization'', q)]
      in if issubclass c layers_attentions_DotProductAttention then
           (Inr (),
            h[a := Node c (AList.update ''combined_qkv_proj_tpl'' (VCfg (Suc (length h)))
                     (AList.update ''proj_tpl'' (VCfg (length h)) (args (h ! a))))]
              @ [proj, Node quantization_attentions_CombinedQKVProjectionLayer
                         [(''quantization'', q)]])
         else if str_in ''MultiQueryDotProductAttention'' (cls_name c) then
           (Inr (),
            h[a := Node c (AList.update ''headless_proj_tpl'' (VCfg (Suc (length h)))
                     (AList.update ''proj_tpl'' (VCfg (length h)) (args (h ! a))))]
              @ [proj, Node quantization_multi_query_attention_OneHeadedAttentionProjection
                         [(''quantization'', q)]])
         else
           (Inl (ValueError (''tr_tpl.tr_atten_tpl.cls is : '' @ class_str c
              @ ''but has to be DotProductAttention or MultiQueryDotProductAttention'')), h))"
  using assms
  by (simp add: quantize_attention_layer_weights_def val_cls_def heap_get_def Let_def
      quantize_dot_product_attention_layer_weights_def
      quantize_mq_dot_product_attention_layer_weights_def
      pax_fiddle_Config_def val_setattr_def nth_append list_update_append)



section \<open>Transformer blocks\<close>

lemma val_getattr_valid:
  assumes "val_getattr h v k = Inr x"
  obtains t where "v = VCfg t" "t < length h" "map_of (args (h ! t)) k = Some x"
  using assms
  by (cases v) (auto simp: val_getattr_def heap_get_def split: if_splits option.splits)

lemma val_getattr_append:
  "val_getattr h v k = Inr x \<Longrightarrow> val_getattr (h @ hs) v k = Inr x"
  by (erule val_getattr_valid) (simp add: val_getattr_def heap_get_def nth_append)

lemma quantize_transformer_feed_forward_layer_weights_eq:
  assumes "val_getattr h ff ''fflayer_tpl'' = Inr (VCfg g)" "g < length h"
  shows "quantize_transformer_feed_forward_layer_weights h ff qt m wp ap rank =
           (Inr (),
            h[g := Node (cls (h ! g)) (AList.update ''linear_tpl'' (VCfg (length h)) (args (h ! g)))]
              @ [Node quantization_Linear
                   [(''quantization'', VQuant (new_QuantizationParams qt m ap wp)),
                    (''rank'', VInt rank)]])"
  using assms(2) val_getattr_append [OF assms(1)]
  by (simp add: quantize_transformer_feed_forward_layer_weights_def pax_fiddle_Config_def
      val_setattr_def heap_get_def nth_append list_update_append)

text \<open>The two tests by which \<open>quantize_attention_layer_weights\<close> recognises an
  attention class.\<close>

definition attention_recognized :: "pyclass \<Rightarrow> bool" where
  "attention_recognized c =
     (issubclass c layers_attentions_DotProductAttention
      \<or> str_in ''MultiQueryDotProductAttention'' (cls_name c))"




section \<open>Embedding, softmax and ngrammer templates\<close>

lemma map_of_foldr_update:
  "map_of (foldr (\<lambda>(k, x). AList.update k x) xs al) k =
     (case map_of xs k of Some x \<Rightarrow> Some x | None \<Rightarrow> map_of al k)"
  by (induction xs) (auto simp: map_of_update)

lemma map_of_filter_key:
  "map_of (filter (\<lambda>(k, x). k \<noteq> q) xs) k = (if k = q then None else map_of xs k)"
  by (induction xs) auto

lemma map_of_copied_args:
  "map_of (copied_args [(''quantization'', q)] old_args) k =
     (if k = ''quantization'' then Some q else map_of old_args k)"
  by (auto simp: copied_args_def map_of_foldr_update map_of_filter_key split: option.splits)

lemma quantize_embedding_softmax_layer_weights_eq:
  assumes sm: "val_getattr h (VCfg t) ''softmax_tpl'' = Inr (VCfg s)"
    and s: "heap_get h s = Some (Node c kw)"
  shows "quantize_embedding_softmax_layer_weights h (VCfg t) qt m wp transposed =
     (if issubclass c layers_SharedEmbeddingSoftmax then
        (Inr (),
         h[t := Node (cls (h ! t)) (AList.update ''softmax_tpl'' (VCfg (length h)) (args (h ! t)))]
           @ [Node (if transposed then quantization_NClassMajorSharedEmbeddingSoftmax
                    else quantization_SharedEmbeddingSoftmax)
                (copied_args [(''quantization'',
                    VQuant (new_QuantizationParams qt m default_act_params wp))] kw)])
      else
        (Inl (ValueError (''lm_tpl.softmax_tpl.cls is : '' @ class_str c
           @ ''but has to be layers.SharedEmbeddingSoftmax'')), h))"
proof -
  from s have sl: "s < length h" and sn: "h ! s = Node c kw"
    by (auto simp: heap_get_def split: if_splits)
  from sm have tl: "t < length h"
    by (auto elim: val_getattr_valid)
  show ?thesis
    using sm sl sn tl
    by (simp add: quantize_embedding_softmax_layer_weights_def val_cls_def heap_get_def
        pax_fiddle_Config_def copy_fields_from_def val_setattr_def nth_append
        list_update_append)
qed

lemma quantize_ngrammer_embedding_weights_eq:
  assumes ng: "val_getattr h (VCfg t) ''ngrammer_tpl'' = Inr (VCfg b)"
    and b: "heap_get h b = Some (Node c kw)"
  shows "quantize_ngrammer_embedding_weights h (VCfg t) qt m wp =
     (if issubclass c layers_ngrammer_Ngrammer \<or> issubclass c layers_ngrammer_VQNgrammer then
        (Inr (),
         h[t := Node (cls (h ! t)) (AList.update ''ngrammer_tpl'' (VCfg (length h)) (args (h ! t)))]
           @ [Node (if issubclass c layers_ngrammer_Ngrammer then quantization_Ngrammer
                    else quantization_VQNgrammer)
                (copied_args [(''quantization'',
                    VQuant (new_QuantizationParams qt m default_act_params wp))] kw)])
      else (Inr (), h))"
proof -
  from b have sl: "b < length h" and sn: "h ! b = Node c kw"
    by (auto simp: heap_get_def split: if_splits)
  from ng have tl: "t < length h"
    by (auto elim: val_getattr_valid)
  show ?thesis
    using ng sl sn tl
    by (simp add: quantize_ngrammer_embedding_weights_def val_cls_def heap_get_def
        pax_fiddle_Config_def copy_fields_from_def val_setattr_def nth_append
        list_update_append)
qed

text \<open>
  Claim C8. Let \<open>ng\<close> be the \<open>ngrammer_tpl\<close> of a language-model node. When
  \<open>ng\<close> is \<open>None\<close>, \<open>quantize_ngrammer_embedding_weights\<close> returns and the
  store is as before. When \<open>ng\<close> is a node of class \<open>c\<close>: for a subclass of
  Ngrammer the call returns and \<open>ngrammer_tpl\<close> is a new node of the quantized class
  Ngrammer; otherwise, for a subclass of VQNgrammer, it is a new node of the quantized
  class VQNgrammer, a different class; for any other class the call returns and the store
  is as before.
\<close>

theorem quantize_ngrammer_embedding_weights_dispatch:
  assumes ng: "val_getattr h lm_tpl ''ngrammer_tpl'' = Inr ng"
    and b: "ng \<noteq> VNone \<Longrightarrow> ng = VCfg b \<and> heap_get h b = Some (Node c kw)"
  shows "(if ng = VNone then
            quantize_ngrammer_embedding_weights h lm_tpl qt m wp = (Inr (), h)
          else if issubclass c layers_ngrammer_Ngrammer then
            (\<exists>h'. quantize_ngrammer_embedding_weights h lm_tpl qt m wp = (Inr (), h')
               \<and> val_getattr h' lm_tpl ''ngrammer_tpl'' = Inr (VCfg (length h))
               \<and> val_cls h' (VCfg (length h)) = Inr quantization_Ngrammer
               \<and> val_getattr h' (VCfg (length h)) ''quantization''
                    = Inr (VQuant (new_QuantizationParams qt m default_act_params wp)))
          else if issubclass c layers_ngrammer_VQNgrammer then
            (\<exists>h'. quantize_ngrammer_embedding_weights h lm_tpl qt m wp = (Inr (), h')
               \<and> val_getattr h' lm_tpl ''ngrammer_tpl'' = Inr (VCfg (length h))
               \<and> val_cls h' (VCfg (length h)) = Inr quantization_VQNgrammer
               \<and> val_getattr h' (VCfg (length h)) ''quantization''
                    = Inr (VQuant (new_QuantizationParams qt m default_act_params wp)))
          else
            quantize_ngrammer_embedding_weights h lm_tpl qt m wp = (Inr (), h))
         \<and> quantization_Ngrammer \<noteq> quantization_VQNgrammer"
proof (cases "ng = VNone")
  case True
  then show ?thesis
    using ng by (simp add: quantize_ngrammer_embedding_weights_def quantization_Ngrammer_def
        quantization_VQNgrammer_def)
next
  case False
  with b have ngb: "ng = VCfg b" and hb: "heap_get h b = Some (Node c kw)" by simp_all
  from ng obtain t where t: "lm_tpl = VCfg t" "t < length h"
    by (auto elim: val_getattr_valid)
  have eq: "quantize_ngrammer_embedding_weights h (VCfg t) qt m wp = 
     (if issubclass c layers_ngrammer_Ngrammer \<or> issubclass c layers_ngrammer_VQNgrammer then
        (Inr (),
         h[t := Node (cls (h ! t)) (AList.update ''ngrammer_tpl'' (VCfg (length h)) (args (h ! t)))]
           @ [Node (if issubclass c layers_ngrammer_Ngrammer then quantization_Ngrammer
                    else quantization_VQNgrammer)
                (copied_args [(''quantization'',
                    VQuant (new_QuantizationParams qt m default_act_params wp))] kw)])
      else (Inr (), h))"
    using quantize_ngrammer_embedding_weights_eq [of h t b c kw qt m wp] ng ngb hb t by simp
  have t': "t < Suc (length h)" using t(2) by simp
  show ?thesis
    using False t(2) t'
    by (simp add: t(1) eq val_getattr_def val_cls_def heap_get_def nth_append map_of_update
        map_of_copied_args quantization_Ngrammer_def quantization_VQNgrammer_def)
qed


theorem quantize_ngrammer_embedding_weights_dispatch_witness:
  "quantize_ngrammer_embedding_weights example_lm (VCfg 0) PTQ INFERENCE example_wp
       = (Inr (), example_lm)
   \<and> (\<exists>h'. quantize_ngrammer_embedding_weights (example_lm_ngrammer layers_ngrammer_Ngrammer)
                (VCfg 0) PTQ INFERENCE example_wp = (Inr (), h')
          \<and> val_getattr h' (VCfg 0) ''ngrammer_tpl'' = Inr (VCfg 10)
          \<and> val_cls h' (VCfg 10) = Inr quantization_Ngrammer
          \<and> val_getattr h' (VCfg 10) ''quantization''
               = Inr (VQuant (new_QuantizationParams PTQ INFERENCE default_act_params example_wp)))
   \<and> (\<exists>h'. quantize_ngrammer_embedding_weights (example_lm_ngrammer layers_ngrammer_VQNgrammer)
                (VCfg 0) PTQ INFERENCE example_wp = (Inr (), h')
          \<and> val_getattr h' (VCfg 0) ''ngrammer_tpl'' = Inr (VCfg 10)
          \<and> val_cls h' (VCfg 10) = Inr quantization_VQNgrammer
          \<and> val_getattr h' (VCfg 10) ''quantization''
               = Inr (VQuant (new_QuantizationParams PTQ INFERENCE default_act_params example_wp)))
   \<and> quantize_ngrammer_embedding_weights (example_lm_ngrammer layers_Linear)
        (VCfg 0) PTQ INFERENCE example_wp = (Inr (), example_lm_ngrammer layers_Linear)"
proof -
  have len: "\<And>c. length (example_lm_ngrammer c) = 10"
    by (simp add: example_lm_def example_lm_ngrammer_def)
  have g0: "val_getattr example_lm (VCfg 0) ''ngrammer_tpl'' = Inr VNone"
    by (simp add: example_lm_def val_getattr_def heap_get_def)
  have g: "\<And>c. val_getattr (example_lm_ngrammer c) (VCfg 0) ''ngrammer_tpl'' = Inr (VCfg 9)"
    by (simp add: example_lm_def example_lm_ngrammer_def val_getattr_def heap_get_def)
  have n: "\<And>c. VCfg 9 \<noteq> VNone \<Longrightarrow> VCfg 9 = VCfg 9
      \<and> heap_get (example_lm_ngrammer c) 9 = Some (Node c [(''ngram_vocab_size'', VInt 768)])"
    by (simp add: example_lm_def example_lm_ngrammer_def heap_get_def)
  have c: "issubclass layers_ngrammer_Ngrammer layers_ngrammer_Ngrammer"
    "\<not> issubclass layers_ngrammer_VQNgrammer layers_ngrammer_Ngrammer"
    "issubclass layers_ngrammer_VQNgrammer layers_ngrammer_VQNgrammer"
    "\<not> issubclass layers_Linear layers_ngrammer_Ngrammer"
    "\<not> issubclass layers_Linear layers_ngrammer_VQNgrammer"
    by (simp_all add: layers_ngrammer_Ngrammer_def layers_ngrammer_VQNgrammer_def
        layers_Linear_def BaseLayer_def)
  show ?thesis
  proof (intro conjI)
    show "quantize_ngrammer_embedding_weights example_lm (VCfg 0) PTQ INFERENCE example_wp
       = (Inr (), example_lm)"
      using quantize_ngrammer_embedding_weights_dispatch [OF g0, of 0 BaseLayer "[]"
          PTQ INFERENCE example_wp]
      by simp
    show "\<exists>h'. quantize_ngrammer_embedding_weights (example_lm_ngrammer layers_ngrammer_Ngrammer)
                (VCfg 0) PTQ INFERENCE example_wp = (Inr (), h')
          \<and> val_getattr h' (VCfg 0) ''ngrammer_tpl'' = Inr (VCfg 10)
          \<and> val_cls h' (VCfg 10) = Inr quantization_Ngrammer
          \<and> val_getattr h' (VCfg 10) ''quantization''
               = Inr (VQuant (new_QuantizationParams PTQ INFERENCE default_act_params example_wp))"
      using quantize_ngrammer_embedding_weights_dispatch [OF g n, of layers_ngrammer_Ngrammer
          PTQ INFERENCE example_wp] c
      by (simp add: len)
    show "\<exists>h'. quantize_ngrammer_embedding_weights (example_lm_ngrammer layers_ngrammer_VQNgrammer)
                (VCfg 0) PTQ INFERENCE example_wp = (Inr (), h')
          \<and> val_getattr h' (VCfg 0) ''ngrammer_tpl'' = Inr (VCfg 10)
          \<and> val_cls h' (VCfg 10) = Inr quantization_VQNgrammer
          \<and> val_getattr h' (VCfg 10) ''quantization''
               = Inr (VQuant (new_QuantizationParams PTQ INFERENCE default_act_params example_wp))"
      using quantize_ngrammer_embedding_weights_dispatch [OF g n, of layers_ngrammer_VQNgrammer
          PTQ INFERENCE example_wp] c
      by (simp add: len)
    show "quantize_ngrammer_embedding_weights (example_lm_ngrammer layers_Linear)
        (VCfg 0) PTQ INFERENCE example_wp = (Inr (), example_lm_ngrammer layers_Linear)"
      using quantize_ngrammer_embedding_weights_dispatch [OF g n, of layers_Linear
          PTQ INFERENCE example_wp] c
      by simp
  qed
qed

section \<open>What a replacement template carries\<close>

lemma val_hasattr_valid:
  assumes "val_hasattr h v k"
  obtains t where "v = VCfg t" "t < length h"
  using assms
  by (cases v) (auto simp: val_hasattr_def val_getattr_def heap_get_def split: if_splits)

lemma quantize_diffusion_tpl_eq:
  "quantize_diffusion_tpl h (VCfg t) qt m wp ap =
     (if val_hasattr h (VCfg t) ''conv_tpl'' then
        (Inr (),
         h[t := Node (cls (h ! t)) (AList.update ''conv_tpl'' (VCfg (length h)) (args (h ! t)))]
           @ [Node quantization_Conv2D
                [(''quantization'', VQuant (new_QuantizationParams qt m ap wp))]])
      else (Inr (), h))"
proof (cases "val_hasattr h (VCfg t) ''conv_tpl''")
  case True
  then have "t < length h" by (auto elim: val_hasattr_valid)
  then show ?thesis
    using True
    by (simp add: quantize_diffusion_tpl_def pax_fiddle_Config_def val_setattr_def heap_get_def
        nth_append list_update_append)
next
  case False
  then show ?thesis by (simp add: quantize_diffusion_tpl_def)
qed





section \<open>What the rewriter leaves alone\<close>

text \<open>
  \<open>rewrite_step W Q h h'\<close> relates the store before an operation of the rewriter to
  the store after it: no node is removed, every node keeps its class and all its
  arguments except those named in \<open>W\<close>, and every node that is new carries a
  quantization parameters value for which \<open>Q\<close> holds. It holds whether the operation
  returns or raises.
\<close>

definition carries :: "(QuantizationParams \<Rightarrow> bool) \<Rightarrow> node \<Rightarrow> bool" where
  "carries Q n = (case map_of (args n) ''quantization'' of
                    Some (VQuant qp) \<Rightarrow> Q qp | _ \<Rightarrow> False)"

definition rewrite_step :: "string set \<Rightarrow> (QuantizationParams \<Rightarrow> bool) \<Rightarrow> heap \<Rightarrow> heap \<Rightarrow> bool" where
  "rewrite_step W Q h h' =
     (length h \<le> length h'
      \<and> (\<forall>a < length h. cls (h' ! a) = cls (h ! a)
            \<and> (\<forall>k. k \<notin> W \<longrightarrow> map_of (args (h' ! a)) k = map_of (args (h ! a)) k))
      \<and> (\<forall>a. length h \<le> a \<and> a < length h' \<longrightarrow> carries Q (h' ! a)))"

definition transformer_keys :: "string set" where
  "transformer_keys = {''proj_tpl'', ''combined_qkv_proj_tpl'', ''headless_proj_tpl'', ''linear_tpl''}"

definition lm_keys :: "string set" where
  "lm_keys = {''softmax_tpl'', ''ngrammer_tpl''}"

lemma carries_iff:
  "carries Q n \<longleftrightarrow> (\<exists>qp. map_of (args n) ''quantization'' = Some (VQuant qp) \<and> Q qp)"
  by (auto simp: carries_def split: option.splits val.splits)

lemma carries_mono: "carries Q n \<Longrightarrow> (\<And>qp. Q qp \<Longrightarrow> Q' qp) \<Longrightarrow> carries Q' n"
  unfolding carries_iff by blast

lemma rewrite_step_refl: "rewrite_step W Q h h"
  by (auto simp: rewrite_step_def)

lemma rewrite_step_trans:
  assumes "rewrite_step W Q h h1" "rewrite_step W Q h1 h2" "''quantization'' \<notin> W"
  shows "rewrite_step W Q h h2"
  unfolding rewrite_step_def
proof (intro conjI allI impI)
  show "length h \<le> length h2" using assms by (simp add: rewrite_step_def)
next
  fix a assume "a < length h"
  then show "cls (h2 ! a) = cls (h ! a)" using assms(1,2) by (simp add: rewrite_step_def)
next
  fix a k assume "a < length h" "k \<notin> W"
  then show "map_of (args (h2 ! a)) k = map_of (args (h ! a)) k"
    using assms(1,2) by (simp add: rewrite_step_def)
next
  fix a assume a: "length h \<le> a \<and> a < length h2"
  show "carries Q (h2 ! a)"
  proof (cases "a < length h1")
    case True
    then have "carries Q (h1 ! a)" using a assms(1) by (simp add: rewrite_step_def)
    moreover have "map_of (args (h2 ! a)) ''quantization'' = map_of (args (h1 ! a)) ''quantization''"
      using True assms(2,3) by (simp add: rewrite_step_def)
    ultimately show ?thesis by (simp add: carries_iff)
  next
    case False
    then show ?thesis using a assms(2) by (simp add: rewrite_step_def)
  qed
qed

lemma rewrite_step_mono:
  assumes "rewrite_step W Q h h'" "W \<subseteq> W'" "\<And>qp. Q qp \<Longrightarrow> Q' qp"
  shows "rewrite_step W' Q' h h'"
  unfolding rewrite_step_def
proof (intro conjI allI impI)
  show "length h \<le> length h'" using assms(1) by (simp add: rewrite_step_def)
next
  fix a assume "a < length h"
  then show "cls (h' ! a) = cls (h ! a)" using assms(1) by (simp add: rewrite_step_def)
next
  fix a k assume "a < length h" "k \<notin> W'"
  then show "map_of (args (h' ! a)) k = map_of (args (h ! a)) k"
    using assms(1,2) by (auto simp: rewrite_step_def)
next
  fix a assume "length h \<le> a \<and> a < length h'"
  then have "carries Q (h' ! a)" using assms(1) by (simp add: rewrite_step_def)
  then show "carries Q' (h' ! a)" using assms(3) by (rule carries_mono)
qed

lemma rewrite_step_Config:
  assumes "Q qp"
  shows "rewrite_step W Q h (h @ [Node c ((''quantization'', VQuant qp) # kw)])"
  using assms by (auto simp: rewrite_step_def carries_def nth_append)

lemma rewrite_step_setattr:
  assumes "val_setattr h v k x = Inr h'" "k \<in> W"
  shows "rewrite_step W Q h h'"
  using assms
  by (cases v)
    (auto simp: val_setattr_def heap_get_def rewrite_step_def nth_list_update map_of_update
      split: if_splits)

lemma rewrite_step_Config_setattr:
  assumes "k \<in> W" "Q qp" "''quantization'' \<notin> W"
  shows "rewrite_step W Q h
           (case val_setattr (h @ [Node c ((''quantization'', VQuant qp) # kw)]) v k x of
              Inl e \<Rightarrow> h @ [Node c ((''quantization'', VQuant qp) # kw)]
            | Inr h2 \<Rightarrow> h2)"
proof -
  have 0: "rewrite_step W Q h (h @ [Node c ((''quantization'', VQuant qp) # kw)])"
    using assms(2) by (rule rewrite_step_Config)
  show ?thesis
  proof (cases "val_setattr (h @ [Node c ((''quantization'', VQuant qp) # kw)]) v k x")
    case (Inl e)
    then show ?thesis using 0 by simp
  next
    case (Inr h2)
    have "rewrite_step W Q (h @ [Node c ((''quantization'', VQuant qp) # kw)]) h2"
      using Inr assms(1) by (rule rewrite_step_setattr)
    then show ?thesis
      using rewrite_step_trans [OF 0 _ assms(3)] Inr by simp
  qed
qed

lemma transformer_keys_simps:
  "''proj_tpl'' \<in> transformer_keys" "''combined_qkv_proj_tpl'' \<in> transformer_keys"
  "''headless_proj_tpl'' \<in> transformer_keys" "''linear_tpl'' \<in> transformer_keys"
  "''quantization'' \<notin> transformer_keys" "''softmax_tpl'' \<notin> transformer_keys"
  by (simp_all add: transformer_keys_def)

lemma rewrite_step_two_installs:
  assumes "k1 \<in> W" "k2 \<in> W" "Q qp" "''quantization'' \<notin> W"
  shows "rewrite_step W Q h
           (case val_setattr (h @ [Node c1 [(''quantization'', VQuant qp)]]) v k1 x1 of
              Inl e \<Rightarrow> h @ [Node c1 [(''quantization'', VQuant qp)]]
            | Inr h2 \<Rightarrow>
                (case val_setattr (h2 @ [Node c2 [(''quantization'', VQuant qp)]]) v k2 (x2 h2) of
                   Inl e \<Rightarrow> h2 @ [Node c2 [(''quantization'', VQuant qp)]]
                 | Inr h4 \<Rightarrow> h4))"
proof -
  have step: "rewrite_step W Q g
           (case val_setattr (g @ [Node c [(''quantization'', VQuant qp)]]) v k x of
              Inl e \<Rightarrow> g @ [Node c [(''quantization'', VQuant qp)]]
            | Inr h2 \<Rightarrow> h2)" if "k \<in> W" for g c k x
    using that assms(3,4) by (rule rewrite_step_Config_setattr)
  show ?thesis
  proof (cases "val_setattr (h @ [Node c1 [(''quantization'', VQuant qp)]]) v k1 x1")
    case (Inl e)
    then show ?thesis using step [OF assms(1), of h c1 x1] by simp
  next
    case (Inr h2)
    have 1: "rewrite_step W Q h h2"
      using step [OF assms(1), of h c1 x1] Inr by simp
    have 2: "rewrite_step W Q h2
       (case val_setattr (h2 @ [Node c2 [(''quantization'', VQuant qp)]]) v k2 (x2 h2) of
                     Inl e \<Rightarrow> h2 @ [Node c2 [(''quantization'', VQuant qp)]]
                   | Inr h4 \<Rightarrow> h4)"
      using step [OF assms(2), of h2 c2 "x2 h2"] by simp
    show ?thesis using rewrite_step_trans [OF 1 2 assms(4)] Inr by simp
  qed
qed

lemma rewrite_step_dot_product:
  assumes "Q (new_QuantizationParams qt m ap wp)"
  shows "rewrite_step transformer_keys Q h
           (snd (quantize_dot_product_attention_layer_weights h v qt m wp ap))"
proof -
  have "rewrite_step transformer_keys Q h
           (case val_setattr (h @ [Node quantization_AttentionProjection
                   [(''quantization'', VQuant (new_QuantizationParams qt m ap wp))]]) v
                   ''proj_tpl'' (VCfg (length h)) of
              Inl e \<Rightarrow> h @ [Node quantization_AttentionProjection
                   [(''quantization'', VQuant (new_QuantizationParams qt m ap wp))]]
            | Inr h2 \<Rightarrow>
                (case val_setattr (h2 @ [Node quantization_attentions_CombinedQKVProjectionLayer
                        [(''quantization'', VQuant (new_QuantizationParams qt m ap wp))]]) v
                        ''combined_qkv_proj_tpl'' (VCfg (length h2)) of
                   Inl e \<Rightarrow> h2 @ [Node quantization_attentions_CombinedQKVProjectionLayer
                        [(''quantization'', VQuant (new_QuantizationParams qt m ap wp))]]
                 | Inr h4 \<Rightarrow> h4))"
    by (rule rewrite_step_two_installs [where ?x2.0 = "\<lambda>h2. VCfg (length h2)"])
      (simp_all add: transformer_keys_simps assms)
  also have "\<dots> = snd (quantize_dot_product_attention_layer_weights h v qt m wp ap)"
    by (simp add: quantize_dot_product_attention_layer_weights_def pax_fiddle_Config_def
        split: sum.split)
  finally show ?thesis .
qed

lemma rewrite_step_mq_dot_product:
  assumes "Q (new_QuantizationParams qt m ap wp)"
  shows "rewrite_step transformer_keys Q h
           (snd (quantize_mq_dot_product_attention_layer_weights h v qt m wp ap))"
proof -
  have "rewrite_step transformer_keys Q h
           (case val_setattr (h @ [Node quantization_AttentionProjection
                   [(''quantization'', VQuant (new_QuantizationParams qt m ap wp))]]) v
                   ''proj_tpl'' (VCfg (length h)) of
              Inl e \<Rightarrow> h @ [Node quantization_AttentionProjection
                   [(''quantization'', VQuant (new_QuantizationParams qt m ap wp))]]
            | Inr h2 \<Rightarrow>
                (case val_setattr
                        (h2 @ [Node quantization_multi_query_attention_OneHeadedAttentionProjection
                        [(''quantization'', VQuant (new_QuantizationParams qt m ap wp))]]) v
                        ''headless_proj_tpl'' (VCfg (length h2)) of
                   Inl e \<Rightarrow> h2 @ [Node quantization_multi_query_attention_OneHeadedAttentionProjection
                        [(''quantization'', VQuant (new_QuantizationParams qt m ap wp))]]
                 | Inr h4 \<Rightarrow> h4))"
    by (rule rewrite_step_two_installs [where ?x2.0 = "\<lambda>h2. VCfg (length h2)"])
      (simp_all add: transformer_keys_simps assms)
  also have "\<dots> = snd (quantize_mq_dot_product_attention_layer_weights h v qt m wp ap)"
    by (simp add: quantize_mq_dot_product_attention_layer_weights_def pax_fiddle_Config_def
        split: sum.split)
  finally show ?thesis .
qed

lemma rewrite_step_attention:
  assumes "Q (new_QuantizationParams qt m ap wp)"
  shows "rewrite_step transformer_keys Q h
           (snd (quantize_attention_layer_weights h v qt m wp ap))"
proof -
  have 1: "rewrite_step transformer_keys Q h
           (snd (quantize_dot_product_attention_layer_weights h x qt m wp ap))" for x
    using assms by (rule rewrite_step_dot_product)
  have 2: "rewrite_step transformer_keys Q h
           (snd (quantize_mq_dot_product_attention_layer_weights h x qt m wp ap))" for x
    using assms by (rule rewrite_step_mq_dot_product)
  show ?thesis
    by (simp add: quantize_attention_layer_weights_def rewrite_step_refl 1 2 split: sum.split)
qed

lemma rewrite_step_feed_forward:
  assumes "Q (new_QuantizationParams qt m ap wp)"
  shows "rewrite_step transformer_keys Q h
           (snd (quantize_transformer_feed_forward_layer_weights h v qt m wp ap rank))"
proof -
  let ?n = "Node quantization_Linear
              ((''quantization'', VQuant (new_QuantizationParams qt m ap wp))
               # [(''rank'', VInt rank)])"
  have 1: "rewrite_step transformer_keys Q h (h @ [?n])"
    using assms by (rule rewrite_step_Config)
  have 2: "rewrite_step transformer_keys Q h
             (case val_setattr (h @ [?n]) x ''linear_tpl'' (VCfg (length h)) of
                Inl e \<Rightarrow> h @ [?n] | Inr h2 \<Rightarrow> h2)" for x
    by (rule rewrite_step_Config_setattr) (simp_all add: transformer_keys_simps assms)
  have "snd (quantize_transformer_feed_forward_layer_weights h v qt m wp ap rank) =
     (case val_getattr (h @ [?n]) v ''fflayer_tpl'' of
        Inl e \<Rightarrow> h @ [?n]
      | Inr x \<Rightarrow> (case val_setattr (h @ [?n]) x ''linear_tpl'' (VCfg (length h)) of
                Inl e \<Rightarrow> h @ [?n] | Inr h2 \<Rightarrow> h2))"
    by (simp add: quantize_transformer_feed_forward_layer_weights_def pax_fiddle_Config_def
        split: sum.split)
  then show ?thesis
    by (simp add: 1 2 split: sum.split)
qed

lemma rewrite_step_transformer_layer:
  assumes "Q (new_QuantizationParams qt m ap wp)"
  shows "rewrite_step transformer_keys Q h
           (snd (quantize_transformer_layer_weights h v qt m wp ap linear_only rank))"
proof -
  obtain r1 h1 where a: "(if \<not> linear_only
            then quantize_attention_layer_weights h v qt m wp ap
            else (Inr (), h)) = (r1, h1)"
    by (cases "(if \<not> linear_only
            then quantize_attention_layer_weights h v qt m wp ap
            else (Inr (), h))") auto
  have att: "rewrite_step transformer_keys Q h
           (snd (quantize_attention_layer_weights h v qt m wp ap))"
    using assms by (rule rewrite_step_attention)
  have 1: "rewrite_step transformer_keys Q h h1"
    using a att rewrite_step_refl [of transformer_keys Q h]
    by (auto split: if_splits)
  have 2: "rewrite_step transformer_keys Q h1
             (snd (quantize_transformer_feed_forward_layer_weights h1 x qt m wp ap rank))" for x
    using assms by (rule rewrite_step_feed_forward)
  have 3: "rewrite_step transformer_keys Q h
             (snd (quantize_transformer_feed_forward_layer_weights h1 x qt m wp ap rank))" for x
    by (rule rewrite_step_trans [OF 1 2]) (simp add: transformer_keys_simps)
  have "snd (quantize_transformer_layer_weights h v qt m wp ap linear_only rank) =
     (case r1 of Inl e \<Rightarrow> h1
      | Inr u \<Rightarrow> (case val_getattr h1 v ''tr_fflayer_tpl'' of
            Inl e \<Rightarrow> h1
          | Inr x \<Rightarrow> snd (quantize_transformer_feed_forward_layer_weights h1 x qt m wp ap rank)))"
    unfolding quantize_transformer_layer_weights_def a
    by (simp split: sum.split)
  then show ?thesis
    by (simp add: 1 3 split: sum.split)
qed

lemma rewrite_step_transformer_tpls:
  assumes "Q (new_QuantizationParams qt m ap wp)"
  shows "rewrite_step transformer_keys Q h
           (snd (quantize_transformer_tpls h tpls qt m wp ap linear_only rank))"
proof (induction tpls arbitrary: h)
  case Nil
  show ?case by (simp add: rewrite_step_refl)
next
  case (Cons t tpls)
  obtain r1 h1 where s: "quantize_transformer_layer_weights h (VCfg t) qt m wp ap
             linear_only rank = (r1, h1)"
    by (cases "quantize_transformer_layer_weights h (VCfg t) qt m wp ap linear_only rank") auto
  have "rewrite_step transformer_keys Q h
          (snd (quantize_transformer_layer_weights h (VCfg t) qt m wp ap linear_only rank))"
    using assms by (rule rewrite_step_transformer_layer)
  then have 1: "rewrite_step transformer_keys Q h h1"
    using s by simp
  have 2: "rewrite_step transformer_keys Q h
          (snd (quantize_transformer_tpls h1 tpls qt m wp ap linear_only rank))"
    by (rule rewrite_step_trans [OF 1 Cons.IH [of h1]]) (simp add: transformer_keys_simps)
  show ?case
    by (simp add: s 1 2 split: sum.split)
qed


definition conv_keys :: "string set" where
  "conv_keys = {''conv_tpl''}"

lemma rewrite_step_copy_fields:
  assumes "copy_fields_from (h @ [Node c [(''quantization'', VQuant qp)]]) (VCfg (length h)) src
             = Inr h2" "Q qp"
  shows "rewrite_step W Q h h2"
proof -
  from assms(1) obtain b nb where
    h2: "h2 = (h @ [Node c [(''quantization'', VQuant qp)]])
                [length h := Node c (copied_args [(''quantization'', VQuant qp)] (args nb))]"
    by (auto simp: copy_fields_from_def heap_get_def split: val.splits option.splits if_splits)
  show ?thesis
    using assms(2)
    by (auto simp: h2 rewrite_step_def carries_iff nth_append nth_list_update map_of_copied_args)
qed

lemma lm_keys_simps:
  "''softmax_tpl'' \<in> lm_keys" "''ngrammer_tpl'' \<in> lm_keys" "''quantization'' \<notin> lm_keys"
  by (simp_all add: lm_keys_def)

lemma rewrite_step_copy_install:
  assumes "Q qp" "k \<in> W" "''quantization'' \<notin> W"
  shows "rewrite_step W Q h
     (case copy_fields_from (h @ [Node c [(''quantization'', VQuant qp)]]) (VCfg (length h)) src of
        Inl e \<Rightarrow> h @ [Node c [(''quantization'', VQuant qp)]]
      | Inr h2 \<Rightarrow> (case val_setattr h2 v k x of Inl e \<Rightarrow> h2 | Inr h3 \<Rightarrow> h3))"
proof (cases "copy_fields_from (h @ [Node c [(''quantization'', VQuant qp)]]) (VCfg (length h)) src")
  case (Inl e)
  have "rewrite_step W Q h (h @ [Node c ((''quantization'', VQuant qp) # [])])"
    using assms(1) by (rule rewrite_step_Config)
  then show ?thesis using Inl by simp
next
  case (Inr h2)
  have 1: "rewrite_step W Q h h2" using Inr assms(1) by (rule rewrite_step_copy_fields)
  show ?thesis
  proof (cases "val_setattr h2 v k x")
    case (Inl e)
    then show ?thesis using 1 Inr by simp
  next
    case r: (Inr h3)
    have "rewrite_step W Q h2 h3" using r assms(2) by (rule rewrite_step_setattr)
    then have "rewrite_step W Q h h3" using 1 assms(3) by (blast intro: rewrite_step_trans)
    then show ?thesis using Inr r by simp
  qed
qed

lemma rewrite_step_embedding_softmax:
  assumes "Q (new_QuantizationParams qt m default_act_params wp)"
  shows "rewrite_step lm_keys Q h
           (snd (quantize_embedding_softmax_layer_weights h v qt m wp transposed))"
proof -
  have 1: "rewrite_step lm_keys Q h
     (case copy_fields_from (h @ [Node c [(''quantization'',
               VQuant (new_QuantizationParams qt m default_act_params wp))]]) (VCfg (length h)) src of
        Inl e \<Rightarrow> h @ [Node c [(''quantization'',
               VQuant (new_QuantizationParams qt m default_act_params wp))]]
      | Inr h2 \<Rightarrow> (case val_setattr h2 v ''softmax_tpl'' x of Inl e \<Rightarrow> h2 | Inr h3 \<Rightarrow> h3))"
    for c src x
    using assms by (rule rewrite_step_copy_install) (simp_all add: lm_keys_simps)
  have "snd (quantize_embedding_softmax_layer_weights h v qt m wp transposed) =
     (case val_getattr h v ''softmax_tpl'' of
        Inl e \<Rightarrow> h
      | Inr src \<Rightarrow>
          (case val_cls h src of
             Inl e \<Rightarrow> h
           | Inr c \<Rightarrow>
               if issubclass c layers_SharedEmbeddingSoftmax then
                 (case copy_fields_from
                    (h @ [Node (if transposed then quantization_NClassMajorSharedEmbeddingSoftmax
                                else quantization_SharedEmbeddingSoftmax)
                            [(''quantization'',
                              VQuant (new_QuantizationParams qt m default_act_params wp))]])
                    (VCfg (length h)) src of
                    Inl e \<Rightarrow> h @ [Node (if transposed
                                         then quantization_NClassMajorSharedEmbeddingSoftmax
                                         else quantization_SharedEmbeddingSoftmax)
                            [(''quantization'',
                              VQuant (new_QuantizationParams qt m default_act_params wp))]]
                  | Inr h2 \<Rightarrow> (case val_setattr h2 v ''softmax_tpl'' (VCfg (length h)) of
                               Inl e \<Rightarrow> h2 | Inr h3 \<Rightarrow> h3))
               else h))"
    by (simp add: quantize_embedding_softmax_layer_weights_def pax_fiddle_Config_def
        split: sum.split)
  then show ?thesis
    by (simp add: 1 rewrite_step_refl split: sum.split)
qed

lemma rewrite_step_ngrammer:
  assumes "Q (new_QuantizationParams qt m default_act_params wp)"
  shows "rewrite_step lm_keys Q h (snd (quantize_ngrammer_embedding_weights h v qt m wp))"
proof -
  have 1: "rewrite_step lm_keys Q h
     (case copy_fields_from (h @ [Node c [(''quantization'',
               VQuant (new_QuantizationParams qt m default_act_params wp))]]) (VCfg (length h)) src of
        Inl e \<Rightarrow> h @ [Node c [(''quantization'',
               VQuant (new_QuantizationParams qt m default_act_params wp))]]
      | Inr h2 \<Rightarrow> (case val_setattr h2 v ''ngrammer_tpl'' x of Inl e \<Rightarrow> h2 | Inr h3 \<Rightarrow> h3))"
    for c src x
    using assms by (rule rewrite_step_copy_install) (simp_all add: lm_keys_simps)
  have "snd (quantize_ngrammer_embedding_weights h v qt m wp) =
     (case val_getattr h v ''ngrammer_tpl'' of
        Inl e \<Rightarrow> h
      | Inr src \<Rightarrow>
          if src = VNone then h
          else
          (case val_cls h src of
             Inl e \<Rightarrow> h
           | Inr c \<Rightarrow>
               (case (if issubclass c layers_ngrammer_Ngrammer
                          then Some quantization_Ngrammer
                        else if issubclass c layers_ngrammer_VQNgrammer
                          then Some quantization_VQNgrammer
                        else None) of
                  None \<Rightarrow> h
                | Some nc \<Rightarrow>
                 (case copy_fields_from
                    (h @ [Node nc
                            [(''quantization'',
                              VQuant (new_QuantizationParams qt m default_act_params wp))]])
                    (VCfg (length h)) src of
                    Inl e \<Rightarrow> h @ [Node nc
                            [(''quantization'',
                              VQuant (new_QuantizationParams qt m default_act_params wp))]]
                  | Inr h2 \<Rightarrow> (case val_setattr h2 v ''ngrammer_tpl'' (VCfg (length h)) of
                               Inl e \<Rightarrow> h2 | Inr h3 \<Rightarrow> h3)))))"
    by (simp add: quantize_ngrammer_embedding_weights_def pax_fiddle_Config_def
        split: sum.split option.split)
  then show ?thesis
    by (simp add: 1 rewrite_step_refl split: sum.split option.split)
qed

lemma rewrite_step_lm_tpl:
  assumes "Q (new_QuantizationParams qt m default_act_params wp)"
  shows "rewrite_step lm_keys Q h (snd (quantize_lm_tpl h v qt m wp qes tes qne))"
proof -
  obtain r1 h1 where a: "(if qes
            then quantize_embedding_softmax_layer_weights h v qt m wp tes
            else (Inr (), h)) = (r1, h1)"
    by (cases "(if qes
            then quantize_embedding_softmax_layer_weights h v qt m wp tes
            else (Inr (), h))") auto
  have e: "rewrite_step lm_keys Q h (snd (quantize_embedding_softmax_layer_weights h v qt m wp tes))"
    using assms by (rule rewrite_step_embedding_softmax)
  have 1: "rewrite_step lm_keys Q h h1"
    using a e rewrite_step_refl [of lm_keys Q h] by (auto split: if_splits)
  have 2: "rewrite_step lm_keys Q h1 (snd (quantize_ngrammer_embedding_weights h1 v qt m wp))"
    using assms by (rule rewrite_step_ngrammer)
  have 3: "rewrite_step lm_keys Q h (snd (quantize_ngrammer_embedding_weights h1 v qt m wp))"
    by (rule rewrite_step_trans [OF 1 2]) (simp add: lm_keys_simps)
  have "snd (quantize_lm_tpl h v qt m wp qes tes qne) =
     (case r1 of Inl e \<Rightarrow> h1
      | Inr u \<Rightarrow> if qne then snd (quantize_ngrammer_embedding_weights h1 v qt m wp) else h1)"
    unfolding quantize_lm_tpl_def a by (simp split: sum.split)
  then show ?thesis by (simp add: 1 3 split: sum.split)
qed

lemma rewrite_step_lm_tpls:
  assumes "Q (new_QuantizationParams qt m default_act_params wp)"
  shows "rewrite_step lm_keys Q h (snd (quantize_lm_tpls h tpls qt m wp qes tes qne))"
proof (induction tpls arbitrary: h)
  case Nil
  show ?case by (simp add: rewrite_step_refl)
next
  case (Cons t tpls)
  obtain r1 h1 where s: "quantize_lm_tpl h (VCfg t) qt m wp qes tes qne = (r1, h1)"
    by (cases "quantize_lm_tpl h (VCfg t) qt m wp qes tes qne") auto
  have "rewrite_step lm_keys Q h (snd (quantize_lm_tpl h (VCfg t) qt m wp qes tes qne))"
    using assms by (rule rewrite_step_lm_tpl)
  then have 1: "rewrite_step lm_keys Q h h1" using s by simp
  have 2: "rewrite_step lm_keys Q h (snd (quantize_lm_tpls h1 tpls qt m wp qes tes qne))"
    by (rule rewrite_step_trans [OF 1 Cons.IH [of h1]]) (simp add: lm_keys_simps)
  show ?case by (simp add: s 1 2 split: sum.split)
qed

lemma rewrite_step_diffusion_tpl:
  assumes "Q (new_QuantizationParams qt m ap wp)"
  shows "rewrite_step conv_keys Q h (snd (quantize_diffusion_tpl h v qt m wp ap))"
proof -
  have 1: "rewrite_step conv_keys Q h
     (case val_setattr (h @ [Node quantization_Conv2D
               ((''quantization'', VQuant (new_QuantizationParams qt m ap wp)) # [])])
               v ''conv_tpl'' (VCfg (length h)) of
        Inl e \<Rightarrow> h @ [Node quantization_Conv2D
               ((''quantization'', VQuant (new_QuantizationParams qt m ap wp)) # [])]
      | Inr h2 \<Rightarrow> h2)"
    by (rule rewrite_step_Config_setattr) (simp_all add: conv_keys_def assms)
  have "snd (quantize_diffusion_tpl h v qt m wp ap) =
     (if val_hasattr h v ''conv_tpl'' then
        (case val_setattr (h @ [Node quantization_Conv2D
               ((''quantization'', VQuant (new_QuantizationParams qt m ap wp)) # [])])
               v ''conv_tpl'' (VCfg (length h)) of
           Inl e \<Rightarrow> h @ [Node quantization_Conv2D
               ((''quantization'', VQuant (new_QuantizationParams qt m ap wp)) # [])]
         | Inr h2 \<Rightarrow> h2)
      else h)"
    by (simp add: quantize_diffusion_tpl_def pax_fiddle_Config_def split: sum.split)
  then show ?thesis
    using 1 by (simp add: rewrite_step_refl)
qed

lemma rewrite_step_diffusion_tpls:
  assumes "Q (new_QuantizationParams qt m ap wp)"
  shows "rewrite_step conv_keys Q h (snd (quantize_diffusion_tpls h tpls qt m wp ap))"
proof (induction tpls arbitrary: h)
  case Nil
  show ?case by (simp add: rewrite_step_refl)
next
  case (Cons t tpls)
  obtain r1 h1 where s: "quantize_diffusion_tpl h (VCfg t) qt m wp ap = (r1, h1)"
    by (cases "quantize_diffusion_tpl h (VCfg t) qt m wp ap") auto
  have "rewrite_step conv_keys Q h (snd (quantize_diffusion_tpl h (VCfg t) qt m wp ap))"
    using assms by (rule rewrite_step_diffusion_tpl)
  then have 1: "rewrite_step conv_keys Q h h1" using s by simp
  have 2: "rewrite_step conv_keys Q h (snd (quantize_diffusion_tpls h1 tpls qt m wp ap))"
    by (rule rewrite_step_trans [OF 1 Cons.IH [of h1]]) (simp add: conv_keys_def)
  show ?case by (simp add: s 1 2 split: sum.split)
qed

section \<open>The bit width assertion of the decorators\<close>

text \<open>
  Claim C5. When the bit width is none of 2, 4 and 8 and the \<open>task\<close> method of the
  wrapped class returns, the \<open>task\<close> of the wrapper made by \<open>for_transformer\<close>
  and of the one made by \<open>for_diffusion\<close> raises AssertionError, and the store it
  leaves is the store the wrapped \<open>task\<close> returned: nothing has been rewritten.
\<close>

theorem task_asserts_bit_width:
  assumes "num_bits \<notin> {2, 4, 8}" and "super_task h = (Inr task_p, h1)"
  shows "for_transformer_task super_task h num_bits qt m us rank wqo qes tes qne linear_only dt
             qicrt bs = (Inl AssertionError, h1)
         \<and> for_diffusion_task super_task h target num_bits qt m us dt wqo qicrt
             = (Inl AssertionError, h1)"
  using assms by (simp add: for_transformer_task_def for_diffusion_task_def)

theorem task_asserts_bit_width_witness:
  "(6::int) \<notin> {2, 4, 8}
   \<and> example_super_task [] = (Inr (VCfg 9), example_lm @ [Node tasks_SingleTask [(''model'', VCfg 0)]])
   \<and> for_transformer_task example_super_task [] 6 FQ TRAINING True (- 1) True False False False
        False Jnp_int8 False 0
      = (Inl AssertionError, example_lm @ [Node tasks_SingleTask [(''model'', VCfg 0)]])
   \<and> for_diffusion_task example_super_task [] layers_Conv2D 6 FQ TRAINING True Jnp_int8 True
        False
      = (Inl AssertionError, example_lm @ [Node tasks_SingleTask [(''model'', VCfg 0)]])"
proof -
  have 1: "(6::int) \<notin> {2, 4, 8}" by simp
  have 2: "example_super_task [] =
     (Inr (VCfg 9), example_lm @ [Node tasks_SingleTask [(''model'', VCfg 0)]])"
    by (simp add: example_super_task_def)
  show ?thesis
    using task_asserts_bit_width [where super_task = example_super_task and h = "[]"
        and num_bits = 6 and task_p = "VCfg 9"
        and ?h1.0 = "example_lm @ [Node tasks_SingleTask [(''model'', VCfg 0)]]"
        and qt = FQ and m = TRAINING and us = True and rank = "- 1" and wqo = True
        and qes = False and tes = False and qne = False and linear_only = False
        and dt = Jnp_int8 and qicrt = False and bs = 0 and target = layers_Conv2D, OF 1 2]
      1 2
    by simp
qed

section \<open>Direct calls raise no AssertionError\<close>

lemma val_getattr_not_assertion: "val_getattr h v k \<noteq> Inl AssertionError"
  by (simp add: val_getattr_def split: val.split option.split)

lemma val_cls_not_assertion: "val_cls h v \<noteq> Inl AssertionError"
  by (simp add: val_cls_def split: val.split option.split)

lemma val_setattr_not_assertion: "val_setattr h v k x \<noteq> Inl AssertionError"
  by (simp add: val_setattr_def split: val.split option.split)

lemma copy_fields_from_not_assertion: "copy_fields_from h v w \<noteq> Inl AssertionError"
  by (simp add: copy_fields_from_def split: val.split option.split)

lemmas prims_not_assertion =
  val_getattr_not_assertion val_cls_not_assertion val_setattr_not_assertion
  copy_fields_from_not_assertion

lemma Inl_not_assertion: "x \<noteq> Inl AssertionError \<Longrightarrow> x = Inl e \<Longrightarrow> e \<noteq> AssertionError"
  by auto

lemma dot_product_not_assertion:
  "fst (quantize_dot_product_attention_layer_weights h v qt m wp ap) \<noteq> Inl AssertionError"
  using val_setattr_not_assertion
  by (auto simp: quantize_dot_product_attention_layer_weights_def pax_fiddle_Config_def
      split: sum.split)

lemma mq_dot_product_not_assertion:
  "fst (quantize_mq_dot_product_attention_layer_weights h v qt m wp ap) \<noteq> Inl AssertionError"
  using val_setattr_not_assertion
  by (auto simp: quantize_mq_dot_product_attention_layer_weights_def pax_fiddle_Config_def
      split: sum.split)

lemma attention_not_assertion:
  "fst (quantize_attention_layer_weights h v qt m wp ap) \<noteq> Inl AssertionError"
  using val_getattr_not_assertion val_cls_not_assertion
  by (auto simp: quantize_attention_layer_weights_def dot_product_not_assertion
      mq_dot_product_not_assertion split: sum.split)

lemma feed_forward_not_assertion:
  "fst (quantize_transformer_feed_forward_layer_weights h v qt m wp ap rank) \<noteq> Inl AssertionError"
  using val_getattr_not_assertion val_setattr_not_assertion
  by (auto simp: quantize_transformer_feed_forward_layer_weights_def pax_fiddle_Config_def
      split: sum.split)

lemma transformer_layer_not_assertion:
  "fst (quantize_transformer_layer_weights h v qt m wp ap lo rank) \<noteq> Inl AssertionError"
  using val_getattr_not_assertion attention_not_assertion [of h v qt m wp ap]
  by (auto simp: quantize_transformer_layer_weights_def feed_forward_not_assertion
      split: sum.split prod.split)

lemma transformer_tpls_not_assertion:
  "fst (quantize_transformer_tpls h tpls qt m wp ap lo rank) \<noteq> Inl AssertionError"
proof (induction tpls arbitrary: h)
  case Nil
  show ?case by simp
next
  case (Cons t tpls)
  show ?case
    using transformer_layer_not_assertion [of h "VCfg t" qt m wp ap lo rank] Cons.IH
    by (auto split: sum.split prod.split)
qed

lemma embedding_softmax_not_assertion:
  "fst (quantize_embedding_softmax_layer_weights h v qt m wp tes) \<noteq> Inl AssertionError"
  using prims_not_assertion
  by (auto simp: quantize_embedding_softmax_layer_weights_def pax_fiddle_Config_def
      split: sum.split)

lemma ngrammer_not_assertion:
  "fst (quantize_ngrammer_embedding_weights h v qt m wp) \<noteq> Inl AssertionError"
  using prims_not_assertion
  by (auto simp: quantize_ngrammer_embedding_weights_def pax_fiddle_Config_def
      split: sum.split option.split)

lemma lm_tpl_not_assertion:
  "fst (quantize_lm_tpl h v qt m wp qes tes qne) \<noteq> Inl AssertionError"
  using embedding_softmax_not_assertion [of h v qt m wp tes]
  by (auto simp: quantize_lm_tpl_def ngrammer_not_assertion split: sum.split prod.split)

lemma lm_tpls_not_assertion:
  "fst (quantize_lm_tpls h tpls qt m wp qes tes qne) \<noteq> Inl AssertionError"
proof (induction tpls arbitrary: h)
  case Nil
  show ?case by simp
next
  case (Cons t tpls)
  show ?case
    using lm_tpl_not_assertion [of h "VCfg t" qt m wp qes tes qne] Cons.IH
    by (auto split: sum.split prod.split)
qed

lemma diffusion_tpl_not_assertion:
  "fst (quantize_diffusion_tpl h v qt m wp ap) \<noteq> Inl AssertionError"
  using prims_not_assertion
  by (auto simp: quantize_diffusion_tpl_def pax_fiddle_Config_def split: sum.split)

lemma diffusion_tpls_not_assertion:
  "fst (quantize_diffusion_tpls h tpls qt m wp ap) \<noteq> Inl AssertionError"
proof (induction tpls arbitrary: h)
  case Nil
  show ?case by simp
next
  case (Cons t tpls)
  show ?case
    using diffusion_tpl_not_assertion [of h "VCfg t" qt m wp ap] Cons.IH
    by (auto split: sum.split prod.split)
qed

lemma set_transformer_quantization_unfold:
  assumes "quantize_transformer_tpls h (find_target_tpl h config layers_transformers_Transformer)
             qt m
             \<lparr>precision = nb, use_symmetric = us, dtype = dt, block_size = bs,
              use_int4_packed_weights = u4, int4_packed_weights_container_dtype = cd\<rparr>
             (if wqo then None else Some \<lparr>act_precision = nb\<rparr>) lo rank = (r1, h1)"
  shows "set_transformer_quantization h config qt m nb lo us rank wqo qes tes qne dt bs u4 cd =
     (case r1 of
        Inl e \<Rightarrow> (Inl e, h1)
      | Inr u \<Rightarrow>
          if qes \<or> qne
          then quantize_lm_tpls h1 (find_target_tpl h1 config layers_TransformerLm) qt m
                 \<lparr>precision = nb, use_symmetric = us, dtype = dt, block_size = bs,
                  use_int4_packed_weights = u4, int4_packed_weights_container_dtype = cd\<rparr>
                 qes tes qne
          else (Inr (), h1))"
  unfolding set_transformer_quantization_def Let_def assms
  by (simp split: sum.split)

lemma set_transformer_quantization_not_assertion:
  "fst (set_transformer_quantization h config qt m nb lo us rank wqo qes tes qne dt bs u4 cd)
     \<noteq> Inl AssertionError"
proof -
  obtain r1 h1 where
    a: "quantize_transformer_tpls h (find_target_tpl h config layers_transformers_Transformer)
             qt m
             \<lparr>precision = nb, use_symmetric = us, dtype = dt, block_size = bs,
              use_int4_packed_weights = u4, int4_packed_weights_container_dtype = cd\<rparr>
             (if wqo then None else Some \<lparr>act_precision = nb\<rparr>) lo rank = (r1, h1)"
    by (meson surj_pair)
  have "fst (r1, h1) \<noteq> Inl AssertionError"
    unfolding a [symmetric] by (rule transformer_tpls_not_assertion)
  then have "r1 \<noteq> Inl AssertionError" by simp
  then show ?thesis
    unfolding set_transformer_quantization_unfold [OF a]
    by (auto simp: lm_tpls_not_assertion split: sum.split)
qed

lemma set_diffusion_quantization_not_assertion:
  "fst (set_diffusion_quantization h config target qt m nb us wqo dt) \<noteq> Inl AssertionError"
  by (simp add: set_diffusion_quantization_def Let_def diffusion_tpls_not_assertion)

section \<open>The stores left by the model-wide entry points\<close>

lemma rewrite_step_set_transformer_quantization:
  assumes Qt: "Q (new_QuantizationParams qt m (if wqo then None else Some \<lparr>act_precision = nb\<rparr>)
             \<lparr>precision = nb, use_symmetric = us, dtype = dt, block_size = bs,
              use_int4_packed_weights = u4, int4_packed_weights_container_dtype = cd\<rparr>)"
    and Ql: "qes \<or> qne \<Longrightarrow> Q (new_QuantizationParams qt m default_act_params
             \<lparr>precision = nb, use_symmetric = us, dtype = dt, block_size = bs,
              use_int4_packed_weights = u4, int4_packed_weights_container_dtype = cd\<rparr>)"
  shows "rewrite_step (transformer_keys \<union> lm_keys) Q h
     (snd (set_transformer_quantization h config qt m nb lo us rank wqo qes tes qne dt bs u4 cd))"
proof -
  let ?wp = "\<lparr>precision = nb, use_symmetric = us, dtype = dt, block_size = bs,
              use_int4_packed_weights = u4, int4_packed_weights_container_dtype = cd\<rparr>"
  let ?W = "transformer_keys \<union> lm_keys"
  have q: "''quantization'' \<notin> ?W" by (simp add: transformer_keys_simps lm_keys_simps)
  obtain r1 h1 where
    a: "quantize_transformer_tpls h (find_target_tpl h config layers_transformers_Transformer)
             qt m ?wp (if wqo then None else Some \<lparr>act_precision = nb\<rparr>) lo rank = (r1, h1)"
    by (meson surj_pair)
  have "rewrite_step transformer_keys Q h (snd (quantize_transformer_tpls h
          (find_target_tpl h config layers_transformers_Transformer)
             qt m ?wp (if wqo then None else Some \<lparr>act_precision = nb\<rparr>) lo rank))"
    using Qt by (rule rewrite_step_transformer_tpls)
  then have "rewrite_step transformer_keys Q h h1"
    unfolding a by simp
  then have 1: "rewrite_step ?W Q h h1"
    by (rule rewrite_step_mono) simp_all
  have 2: "rewrite_step ?W Q h (snd (quantize_lm_tpls h1 tpls qt m ?wp qes tes qne))"
    if "qes \<or> qne" for tpls
  proof -
    have "rewrite_step lm_keys Q h1 (snd (quantize_lm_tpls h1 tpls qt m ?wp qes tes qne))"
      using Ql [OF that] by (rule rewrite_step_lm_tpls)
    then have "rewrite_step ?W Q h1 (snd (quantize_lm_tpls h1 tpls qt m ?wp qes tes qne))"
      by (rule rewrite_step_mono) simp_all
    with 1 show ?thesis using q by (blast intro: rewrite_step_trans)
  qed
  show ?thesis
    unfolding set_transformer_quantization_unfold [OF a]
    using 1 2 by (auto split: sum.split)
qed

lemma rewrite_step_set_diffusion_quantization:
  assumes "Q (new_QuantizationParams qt m (if wqo then None else Some \<lparr>act_precision = nb\<rparr>)
             \<lparr>precision = nb, use_symmetric = us, dtype = dt, block_size = default_block_size,
              use_int4_packed_weights = default_use_int4_packed_weights,
              int4_packed_weights_container_dtype = default_int4_packed_weights_container_dtype\<rparr>)"
  shows "rewrite_step conv_keys Q h
     (snd (set_diffusion_quantization h config target qt m nb us wqo dt))"
  unfolding set_diffusion_quantization_def Let_def
  using assms by (rule rewrite_step_diffusion_tpls)

lemma rewrite_step_new_nodes:
  assumes "rewrite_step W Q h h'" "length h \<le> a" "a < length h'"
  shows "carries Q (h' ! a)"
  using assms by (simp add: rewrite_step_def)






section \<open>Embedding/softmax quantization of an unsupported softmax\<close>

lemma find_target_tpl_root:
  assumes "r < length h" "issubclass (cls (h ! r)) target"
  shows "find_target_tpl h (VCfg r) target
           = r # find_walk h target (map snd (args (h ! r))) [r]"
  using assms by (simp add: find_target_tpl_def)

text \<open>
  Claim C4, as amended. Let the root be a language-model node whose softmax template is
  a node of a class \<open>c\<close> that is no subclass of SharedEmbeddingSoftmax. Then
  \<open>quantize_embedding_softmax_layer_weights\<close> raises the ValueError that prints
  \<open>c\<close> and leaves the store as it was. \<open>set_transformer_quantization\<close> with
  embedding/softmax quantization requested raises as well: the error of the transformer
  rewrite if that fails, the same ValueError otherwise. The store it leaves is the store
  after the transformer rewrite, which has run first: the transformer blocks found have
  been rewritten although the call fails.
\<close>

theorem embedding_softmax_unsupported:
  assumes root: "heap_get h r = Some (Node cr kwr)"
    and lm: "issubclass cr layers_TransformerLm"
    and sm: "map_of kwr ''softmax_tpl'' = Some (VCfg s)"
    and s: "heap_get h s = Some (Node c kw)"
    and c: "\<not> issubclass c layers_SharedEmbeddingSoftmax"
  shows "quantize_embedding_softmax_layer_weights h (VCfg r) qt m wp tes
           = (Inl (ValueError (''lm_tpl.softmax_tpl.cls is : '' @ class_str c
                @ ''but has to be layers.SharedEmbeddingSoftmax'')), h)
         \<and> set_transformer_quantization h (VCfg r) qt m num_bits lo us rank wqo True tes qne dt
             bs u4 cd
           = (case fst (quantize_transformer_tpls h
                     (find_target_tpl h (VCfg r) layers_transformers_Transformer) qt m
                     \<lparr>precision = num_bits, use_symmetric = us, dtype = dt, block_size = bs,
                      use_int4_packed_weights = u4, int4_packed_weights_container_dtype = cd\<rparr>
                     (if wqo then None else Some \<lparr>act_precision = num_bits\<rparr>) lo rank) of
                Inl e \<Rightarrow> Inl e
              | Inr u \<Rightarrow> Inl (ValueError (''lm_tpl.softmax_tpl.cls is : '' @ class_str c
                  @ ''but has to be layers.SharedEmbeddingSoftmax'')),
              snd (quantize_transformer_tpls h
                     (find_target_tpl h (VCfg r) layers_transformers_Transformer) qt m
                     \<lparr>precision = num_bits, use_symmetric = us, dtype = dt, block_size = bs,
                      use_int4_packed_weights = u4, int4_packed_weights_container_dtype = cd\<rparr>
                     (if wqo then None else Some \<lparr>act_precision = num_bits\<rparr>) lo rank))"
proof
  from root have rl: "r < length h" and rn: "h ! r = Node cr kwr"
    by (auto simp: heap_get_def split: if_splits)
  from s have sl: "s < length h" and sn: "h ! s = Node c kw"
    by (auto simp: heap_get_def split: if_splits)
  have g: "val_getattr h (VCfg r) ''softmax_tpl'' = Inr (VCfg s)"
    using rl rn sm by (simp add: val_getattr_def heap_get_def)
  show "quantize_embedding_softmax_layer_weights h (VCfg r) qt m wp tes
           = (Inl (ValueError (''lm_tpl.softmax_tpl.cls is : '' @ class_str c
                @ ''but has to be layers.SharedEmbeddingSoftmax'')), h)"
    using c by (simp add: quantize_embedding_softmax_layer_weights_eq [OF g s])
  let ?wp = "\<lparr>precision = num_bits, use_symmetric = us, dtype = dt, block_size = bs,
                      use_int4_packed_weights = u4, int4_packed_weights_container_dtype = cd\<rparr>"
  let ?T = "quantize_transformer_tpls h
                     (find_target_tpl h (VCfg r) layers_transformers_Transformer) qt m ?wp
                     (if wqo then None else Some \<lparr>act_precision = num_bits\<rparr>) lo rank"
  obtain r1 h1 where a: "?T = (r1, h1)" by (meson surj_pair)
  have "rewrite_step transformer_keys (\<lambda>qp. True) h (snd ?T)"
    by (rule rewrite_step_transformer_tpls) simp
  then have st: "rewrite_step transformer_keys (\<lambda>qp. True) h h1"
    unfolding a by simp
  have rl1: "r < length h1" and sl1: "s < length h1"
    using st rl sl by (auto simp: rewrite_step_def)
  have c1: "cls (h1 ! r) = cr" "cls (h1 ! s) = c"
    using st rl sl rn sn by (auto simp: rewrite_step_def)
  have "map_of (args (h1 ! r)) ''softmax_tpl'' = map_of (args (h ! r)) ''softmax_tpl''"
    using st rl by (simp add: rewrite_step_def transformer_keys_simps)
  then have g1: "val_getattr h1 (VCfg r) ''softmax_tpl'' = Inr (VCfg s)"
    using rl1 rn sm by (simp add: val_getattr_def heap_get_def)
  have s1: "heap_get h1 s = Some (Node c (args (h1 ! s)))"
    using sl1 c1(2) by (cases "h1 ! s") (simp add: heap_get_def)
  have e1: "quantize_embedding_softmax_layer_weights h1 (VCfg r) qt m ?wp tes
           = (Inl (ValueError (''lm_tpl.softmax_tpl.cls is : '' @ class_str c
                @ ''but has to be layers.SharedEmbeddingSoftmax'')), h1)"
    using c by (simp add: quantize_embedding_softmax_layer_weights_eq [OF g1 s1])
  have f1: "find_target_tpl h1 (VCfg r) layers_TransformerLm
              = r # find_walk h1 layers_TransformerLm (map snd (args (h1 ! r))) [r]"
    using rl1 c1(1) lm by (simp add: find_target_tpl_root)
  have l1: "quantize_lm_tpls h1 (find_target_tpl h1 (VCfg r) layers_TransformerLm) qt m ?wp
              True tes qne
            = (Inl (ValueError (''lm_tpl.softmax_tpl.cls is : '' @ class_str c
                @ ''but has to be layers.SharedEmbeddingSoftmax'')), h1)"
    by (simp add: f1 quantize_lm_tpl_def e1)
  show "set_transformer_quantization h (VCfg r) qt m num_bits lo us rank wqo True tes qne dt
             bs u4 cd
           = (case fst ?T of
                Inl e \<Rightarrow> Inl e
              | Inr u \<Rightarrow> Inl (ValueError (''lm_tpl.softmax_tpl.cls is : '' @ class_str c
                  @ ''but has to be layers.SharedEmbeddingSoftmax'')),
              snd ?T)"
    unfolding set_transformer_quantization_unfold [OF a] a
    by (simp add: l1 split: sum.split)
qed


theorem embedding_softmax_unsupported_witness:
  "quantize_embedding_softmax_layer_weights example_lm_other_softmax (VCfg 0) PTQ INFERENCE
       example_wp False
     = (Inl (ValueError (''lm_tpl.softmax_tpl.cls is : '' @ class_str user_Softmax
          @ ''but has to be layers.SharedEmbeddingSoftmax'')), example_lm_other_softmax)
   \<and> fst (set_transformer_quantization example_lm_other_softmax (VCfg 0) PTQ INFERENCE 8 False
            True (- 1) True True False False Jnp_int8 0 True Jnp_int32)
     = Inl (ValueError (''lm_tpl.softmax_tpl.cls is : '' @ class_str user_Softmax
          @ ''but has to be layers.SharedEmbeddingSoftmax''))"
proof -
  have root: "heap_get example_lm_other_softmax 0 = Some (Node layers_TransformerLm
        [(''softmax_tpl'', VCfg 1), (''ngrammer_tpl'', VNone),
         (''stacked_transformer_tpl'', VCfg 2)])"
    by (simp add: example_lm_other_softmax_def example_lm_def heap_get_def)
  have lm: "issubclass layers_TransformerLm layers_TransformerLm"
    by (simp add: layers_TransformerLm_def)
  have sm: "map_of [(''softmax_tpl'', VCfg 1), (''ngrammer_tpl'', VNone),
         (''stacked_transformer_tpl'', VCfg 2)] ''softmax_tpl'' = Some (VCfg 1)"
    by simp
  have s: "heap_get example_lm_other_softmax 1
             = Some (Node user_Softmax [(''input_dims'', VInt 16), (''num_classes'', VInt 32)])"
    by (simp add: example_lm_other_softmax_def example_lm_def heap_get_def)
  have c: "\<not> issubclass user_Softmax layers_SharedEmbeddingSoftmax"
    by (simp add: user_Softmax_def layers_SharedEmbeddingSoftmax_def BaseLayer_def)
  have t: "fst (quantize_transformer_tpls example_lm_other_softmax
                  (find_target_tpl example_lm_other_softmax (VCfg 0)
                     layers_transformers_Transformer) PTQ INFERENCE
                  \<lparr>precision = 8, use_symmetric = True, dtype = Jnp_int8, block_size = 0,
                   use_int4_packed_weights = True,
                   int4_packed_weights_container_dtype = Jnp_int32\<rparr>
                  (if True then None else Some \<lparr>act_precision = 8\<rparr>) False (- 1)) = Inr ()"
    by code_simp
  note th = embedding_softmax_unsupported [OF root lm sm s c, of PTQ INFERENCE example_wp False
        8 False True "- 1" True False Jnp_int8 0 True Jnp_int32]
  have 1: "quantize_embedding_softmax_layer_weights example_lm_other_softmax (VCfg 0) PTQ
       INFERENCE example_wp False
     = (Inl (ValueError (''lm_tpl.softmax_tpl.cls is : '' @ class_str user_Softmax
          @ ''but has to be layers.SharedEmbeddingSoftmax'')), example_lm_other_softmax)"
    by (rule th [THEN conjunct1])
  have 2: "fst (set_transformer_quantization example_lm_other_softmax (VCfg 0) PTQ INFERENCE 8
            False True (- 1) True True False False Jnp_int8 0 True Jnp_int32)
     = Inl (ValueError (''lm_tpl.softmax_tpl.cls is : '' @ class_str user_Softmax
          @ ''but has to be layers.SharedEmbeddingSoftmax''))"
    unfolding th [THEN conjunct2] fst_conv t by (simp only: sum.case)
  from 1 2 show ?thesis by (rule conjI)
qed

text \<open>
  The claim as first stated fails on the example: the request raises the ValueError, and
  the linear template of the feed-forward layer, node 8 before the call, is a new node of
  the quantized class Linear after it.
\<close>

theorem failed_embedding_request_counterexample:
  "val_getattr example_lm_other_softmax (VCfg 7) ''linear_tpl'' = Inr (VCfg 8)
   \<and> fst (set_transformer_quantization example_lm_other_softmax (VCfg 0) PTQ INFERENCE 8 False
            True (- 1) True True False False Jnp_int8 0 True Jnp_int32)
     = Inl (ValueError (''lm_tpl.softmax_tpl.cls is : <class '' @ [CHR 0x27]
          @ ''user.model.AdaptiveSoftmax'' @ [CHR 0x27]
          @ ''>but has to be layers.SharedEmbeddingSoftmax''))
   \<and> val_getattr
        (snd (set_transformer_quantization example_lm_other_softmax (VCfg 0) PTQ INFERENCE 8
                False True (- 1) True True False False Jnp_int8 0 True Jnp_int32))
        (VCfg 7) ''linear_tpl'' = Inr (VCfg 11)
   \<and> val_cls
        (snd (set_transformer_quantization example_lm_other_softmax (VCfg 0) PTQ INFERENCE 8
                False True (- 1) True True False False Jnp_int8 0 True Jnp_int32))
        (VCfg 11) = Inr quantization_Linear"
  by code_simp

section \<open>Inference mode\<close>

text \<open>
  \<open>inference_node n\<close> is the node \<open>n\<close> with the mode of its quantization
  parameters set to INFERENCE, and \<open>n\<close> itself when it carries none. A store is
  \<open>quantization_typed\<close> when the \<open>quantization\<close> argument of every node that has
  one is a quantization parameters value. \<open>children h a\<close> are the nodes the loop of
  \<open>set_inference_mode\<close> reaches from node \<open>a\<close> in one step: the nodes that are
  argument values of \<open>a\<close> or elements of a sequence-valued argument of \<open>a\<close>.
  \<open>ranked rk h\<close> says that the rank \<open>rk\<close> falls along every such step, which a
  store has for some \<open>rk\<close> exactly when it has no cycle. \<open>reachable h to_process\<close>
  are the nodes reached from the values in \<open>to_process\<close> in any number of steps, and
  \<open>inference_store S h\<close> is the store \<open>h\<close> with every node in \<open>S\<close> replaced
  by its \<open>inference_node\<close>.
\<close>

definition inference_node :: "node \<Rightarrow> node" where
  "inference_node n =
     (case map_of (args n) ''quantization'' of
        Some (VQuant qp) \<Rightarrow>
          Node (cls n) (AList.update ''quantization'' (VQuant (qp\<lparr>mode := INFERENCE\<rparr>)) (args n))
      | _ \<Rightarrow> n)"

definition quantization_typed_node :: "node \<Rightarrow> bool" where
  "quantization_typed_node n =
     (case map_of (args n) ''quantization'' of
        None \<Rightarrow> True
      | Some (VQuant qp) \<Rightarrow> True
      | Some _ \<Rightarrow> False)"

definition quantization_typed :: "heap \<Rightarrow> bool" where
  "quantization_typed h = list_all quantization_typed_node h"

definition config_elems :: "heap \<Rightarrow> val list \<Rightarrow> addr list" where
  "config_elems h vs =
     concat (map (\<lambda>v. case v of VCfg a \<Rightarrow> (if a < length h then [a] else []) | _ \<Rightarrow> []) vs)"

definition roots :: "heap \<Rightarrow> val list \<Rightarrow> addr list" where
  "roots h to_process = config_elems h (concat (map params_of to_process))"

definition children :: "heap \<Rightarrow> addr \<Rightarrow> addr list" where
  "children h a = roots h (map snd (args (h ! a)))"

definition ranked :: "(addr \<Rightarrow> nat) \<Rightarrow> heap \<Rightarrow> bool" where
  "ranked rk h = list_all (\<lambda>a. list_all (\<lambda>b. rk b < rk a) (children h a)) [0..<length h]"

definition edges :: "heap \<Rightarrow> (addr \<times> addr) set" where
  "edges h = {(a, b). a < length h \<and> b \<in> set (children h a)}"

definition reachable :: "heap \<Rightarrow> val list \<Rightarrow> addr set" where
  "reachable h to_process = (edges h)\<^sup>* `` set (roots h to_process)"

definition inference_store :: "addr set \<Rightarrow> heap \<Rightarrow> heap" where
  "inference_store S h = map (\<lambda>a. if a \<in> S then inference_node (h ! a) else h ! a) [0..<length h]"

lemma length_inference_store [simp]: "length (inference_store S h) = length h"
  by (simp add: inference_store_def)

lemma nth_inference_store:
  "a < length h \<Longrightarrow> inference_store S h ! a = (if a \<in> S then inference_node (h ! a) else h ! a)"
  by (simp add: inference_store_def)

lemma cls_inference_node [simp]: "cls (inference_node n) = cls n"
  by (simp add: inference_node_def split: option.split val.split)

lemma map_of_inference_node:
  "map_of (args (inference_node n)) k =
     (case map_of (args n) k of
        Some (VQuant qp) \<Rightarrow> if k = ''quantization'' then Some (VQuant (qp\<lparr>mode := INFERENCE\<rparr>))
                            else Some (VQuant qp)
      | x \<Rightarrow> x)"
  by (auto simp: inference_node_def map_of_update split: option.split val.split)

lemma inference_node_idem [simp]: "inference_node (inference_node n) = inference_node n"
proof (cases "map_of (args n) ''quantization''")
  case None
  then show ?thesis by (simp add: inference_node_def)
next
  case (Some v)
  show ?thesis
  proof (cases v)
    case (VQuant qp)
    have u: "AList.update k y (AList.update k x al) = AList.update k y al" for k x y
      and al :: "(string \<times> val) list"
      by (induction al) auto
    show ?thesis
      using Some VQuant by (simp add: inference_node_def map_of_update u)
  qed (use Some in \<open>simp_all add: inference_node_def\<close>)
qed

lemma inference_store_empty [simp]: "inference_store {} h = h"
  by (simp add: inference_store_def map_nth)

lemma inference_store_Un:
  "inference_store A (inference_store B h) = inference_store (A \<union> B) h"
  by (rule nth_equalityI) (auto simp: nth_inference_store)

lemma inference_store_single:
  "a < length h \<Longrightarrow> inference_store {a} h = h[a := inference_node (h ! a)]"
  by (rule nth_equalityI) (auto simp: nth_inference_store nth_list_update)

lemma config_elems_append [simp]:
  "config_elems h (xs @ ys) = config_elems h xs @ config_elems h ys"
  by (simp add: config_elems_def)

lemma config_elems_Nil [simp]: "config_elems h [] = []"
  by (simp add: config_elems_def)

lemma config_elems_Cons:
  "config_elems h (v # vs) =
     (case v of VCfg a \<Rightarrow> (if a < length h then [a] else []) | _ \<Rightarrow> []) @ config_elems h vs"
  by (simp add: config_elems_def)

lemma config_elems_length_cong: "length h' = length h \<Longrightarrow> config_elems h' vs = config_elems h vs"
  by (induction vs) (auto simp: config_elems_Cons split: val.splits)

lemma set_config_elems: "set (config_elems h vs) = {a. VCfg a \<in> set vs \<and> a < length h}"
  by (induction vs) (auto simp: config_elems_Cons split: val.splits)

lemma roots_append [simp]: "roots h (xs @ ys) = roots h xs @ roots h ys"
  by (simp add: roots_def)

lemma roots_Nil [simp]: "roots h [] = []"
  by (simp add: roots_def)

lemma roots_length_cong: "length h' = length h \<Longrightarrow> roots h' vs = roots h vs"
  unfolding roots_def by (rule config_elems_length_cong)

lemma roots_VQuant [simp]: "roots h (VQuant qp # vs) = roots h vs"
  by (simp add: roots_def params_of_def config_elems_Cons)

lemma roots_Cons: "roots h (v # vs) = roots h [v] @ roots h vs"
  by (simp add: roots_def)

lemma roots_update_quant:
  assumes "map_of al k = Some (VQuant qp)"
  shows "roots h (map snd (AList.update k (VQuant qp') al)) = roots h (map snd al)"
  using assms
proof (induction al)
  case Nil
  then show ?case by simp
next
  case (Cons p al)
  obtain k' v where p: "p = (k', v)" by (cases p)
  show ?case
  proof (cases "k' = k")
    case True
    then show ?thesis using Cons.prems p by simp
  next
    case False
    then have "roots h (map snd (AList.update k (VQuant qp') al)) = roots h (map snd al)"
      using Cons p by simp
    then show ?thesis
      using False p roots_Cons [of h v "map snd (AList.update k (VQuant qp') al)"]
        roots_Cons [of h v "map snd al"]
      by simp
  qed
qed

lemma roots_args_inference_node:
  "roots h (map snd (args (inference_node n))) = roots h (map snd (args n))"
  by (simp add: inference_node_def roots_update_quant split: option.split val.split)

lemma children_inference_store:
  "a < length h \<Longrightarrow> children (inference_store S h) a = children h a"
  by (simp add: children_def nth_inference_store roots_args_inference_node
      roots_length_cong [of "inference_store S h" h])

lemma edges_inference_store [simp]: "edges (inference_store S h) = edges h"
  by (auto simp: edges_def children_inference_store)

lemma ranked_inference_store: "ranked rk h \<Longrightarrow> ranked rk (inference_store S h)"
  by (simp add: ranked_def list_all_iff children_inference_store)

lemma quantization_typed_node_iff:
  "quantization_typed_node n \<longleftrightarrow>
     map_of (args n) ''quantization'' = None
     \<or> (\<exists>qp. map_of (args n) ''quantization'' = Some (VQuant qp))"
  by (auto simp: quantization_typed_node_def split: option.splits val.splits)

lemma quantization_typed_inference_node:
  "quantization_typed_node n \<Longrightarrow> quantization_typed_node (inference_node n)"
  unfolding quantization_typed_node_iff
  by (auto simp: map_of_inference_node)

lemma quantization_typed_inference_store:
  "quantization_typed h \<Longrightarrow> quantization_typed (inference_store S h)"
  unfolding quantization_typed_def list_all_length
  by (simp add: nth_inference_store quantization_typed_inference_node)

lemma reachable_inference_store [simp]:
  "reachable (inference_store S h) st = reachable h st"
  by (simp add: reachable_def roots_length_cong [of "inference_store S h" h])

lemma set_quantization_mode_inference_typed:
  assumes "quantization_typed h"
  shows "set_quantization_mode_inference h v = (Inr (), inference_store (set (config_elems h [v])) h)"
proof (cases v)
  case (VCfg a)
  show ?thesis
  proof (cases "a < length h")
    case True
    then have t: "quantization_typed_node (h ! a)"
      using assms by (simp add: quantization_typed_def list_all_length)
    have c: "config_elems h [v] = [a]" using True VCfg by (simp add: config_elems_Cons)
    from t [unfolded quantization_typed_node_iff]
    consider (none) "map_of (args (h ! a)) ''quantization'' = None"
      | (quant) qp where "map_of (args (h ! a)) ''quantization'' = Some (VQuant qp)"
      by auto
    then show ?thesis
    proof cases
      case none
      then have "inference_node (h ! a) = h ! a" by (simp add: inference_node_def)
      then show ?thesis
        using none True VCfg c
        by (simp add: set_quantization_mode_inference_def val_hasattr_def val_getattr_def
            heap_get_def inference_store_single)
    next
      case quant
      then have "inference_node (h ! a) = Node (cls (h ! a))
          (AList.update ''quantization'' (VQuant (qp\<lparr>mode := INFERENCE\<rparr>)) (args (h ! a)))"
        by (simp add: inference_node_def)
      then show ?thesis
        using quant True VCfg c
        by (simp add: set_quantization_mode_inference_def val_hasattr_def val_getattr_def
            val_setattr_def heap_get_def inference_store_single)
    qed
  next
    case False
    then show ?thesis
      using VCfg
      by (simp add: set_quantization_mode_inference_def val_hasattr_def val_getattr_def
          heap_get_def config_elems_Cons)
  qed
qed (simp_all add: set_quantization_mode_inference_def val_hasattr_def val_getattr_def
      config_elems_Cons)

lemma for_param_elems_typed:
  assumes "quantization_typed h"
  shows "for_param_elems h elems tp =
           (Inr (tp @ concat (map (ordered_arguments_values
                                     (inference_store (set (config_elems h elems)) h)) elems)),
            inference_store (set (config_elems h elems)) h)"
  using assms
proof (induction elems arbitrary: h tp)
  case Nil
  then show ?case by simp
next
  case (Cons e es)
  let ?S = "set (config_elems h [e])"
  let ?h1 = "inference_store ?S h"
  let ?T = "set (config_elems h es)"
  have t1: "quantization_typed ?h1"
    using Cons.prems by (rule quantization_typed_inference_store)
  have ce: "config_elems ?h1 es = config_elems h es"
    by (rule config_elems_length_cong) simp
  have all: "set (config_elems h (e # es)) = ?T \<union> ?S"
    using config_elems_append [of h "[e]" es] by auto
  have h2: "inference_store (set (config_elems ?h1 es)) ?h1
              = inference_store (set (config_elems h (e # es))) h"
    by (simp only: ce inference_store_Un all)
  have push: "ordered_arguments_values ?h1 e
                = ordered_arguments_values (inference_store (set (config_elems h (e # es))) h) e"
  proof (cases e)
    case (VCfg a)
    show ?thesis
    proof (cases "a < length h")
      case True
      then have "a \<in> ?S" using VCfg by (simp add: config_elems_Cons)
      then show ?thesis
        using True VCfg all
        by (simp add: ordered_arguments_values_def nth_inference_store)
    next
      case False
      then show ?thesis using VCfg by (simp add: ordered_arguments_values_def)
    qed
  qed (simp_all add: ordered_arguments_values_def)
  show ?case
    using Cons.IH [OF t1, of "tp @ ordered_arguments_values ?h1 e"]
    by (simp add: set_quantization_mode_inference_typed [OF Cons.prems] h2 push)
qed

lemma for_param_elems_prepend:
  "for_param_elems h elems (st @ tp) =
     (case for_param_elems h elems tp of
        (Inl e, h1) \<Rightarrow> (Inl e, h1)
      | (Inr tp1, h1) \<Rightarrow> (Inr (st @ tp1), h1))"
proof (induction elems arbitrary: h tp)
  case Nil
  show ?case by simp
next
  case (Cons e es)
  obtain r h1 where s: "set_quantization_mode_inference h e = (r, h1)" by (meson surj_pair)
  show ?case
  proof (cases r)
    case (Inl x)
    then show ?thesis using s by simp
  next
    case (Inr u)
    then show ?thesis
      using s Cons.IH [of h1 "tp @ ordered_arguments_values h1 e"] by simp
  qed
qed

lemma set_inference_mode_loop_append:
  assumes "set_inference_mode_loop h st2 = Some y"
  shows "set_inference_mode_loop h (st1 @ st2) =
           (case y of
              (Inl e, h2) \<Rightarrow> Some (Inl e, h2)
            | (Inr u, h2) \<Rightarrow> set_inference_mode_loop h2 st1)"
proof -
  have "\<forall>st1. set_inference_mode_loop h (st1 @ st2) =
           (case y of
              (Inl e, h2) \<Rightarrow> Some (Inl e, h2)
            | (Inr u, h2) \<Rightarrow> set_inference_mode_loop h2 st1)"
  proof (rule set_inference_mode_loop.raw_induct
      [of "\<lambda>h st2 y. \<forall>st1. set_inference_mode_loop h (st1 @ st2) =
           (case y of
              (Inl e, h2) \<Rightarrow> Some (Inl e, h2)
            | (Inr u, h2) \<Rightarrow> set_inference_mode_loop h2 st1)" h st2 y])
    show "set_inference_mode_loop h st2 = Some y" by (rule assms)
  next
    fix loop :: "heap \<Rightarrow> val list \<Rightarrow> outcome option" and h st2 y
    assume IH: "\<And>h st2 y. loop h st2 = Some y \<Longrightarrow>
          \<forall>st1. set_inference_mode_loop h (st1 @ st2) =
           (case y of
              (Inl e, h2) \<Rightarrow> Some (Inl e, h2)
            | (Inr u, h2) \<Rightarrow> set_inference_mode_loop h2 st1)"
      and body: "(if st2 = [] then Some (Inr (), h)
      else case for_param_elems h (params_of (last st2)) (butlast st2) of
           (Inl e, h1) \<Rightarrow> Some (Inl e, h1)
           | (Inr to_process1, h1) \<Rightarrow> loop h1 to_process1) = Some y"
    show "\<forall>st1. set_inference_mode_loop h (st1 @ st2) =
           (case y of
              (Inl e, h2) \<Rightarrow> Some (Inl e, h2)
            | (Inr u, h2) \<Rightarrow> set_inference_mode_loop h2 st1)"
    proof
      fix st1
      show "set_inference_mode_loop h (st1 @ st2) =
           (case y of
              (Inl e, h2) \<Rightarrow> Some (Inl e, h2)
            | (Inr u, h2) \<Rightarrow> set_inference_mode_loop h2 st1)"
      proof (cases "st2 = []")
        case True
        then show ?thesis using body by (auto split: if_splits)
      next
        case False
        obtain r h1 where f: "for_param_elems h (params_of (last st2)) (butlast st2) = (r, h1)"
          by (meson surj_pair)
        have l: "last (st1 @ st2) = last st2" "butlast (st1 @ st2) = st1 @ butlast st2"
          using False by (simp_all add: butlast_append)
        have ne: "st1 @ st2 \<noteq> []" using False by simp
        show ?thesis
        proof (cases r)
          case (Inl e)
          then have "y = (Inl e, h1)" using body False f by simp
          then show ?thesis
            using False l f Inl
            by (subst set_inference_mode_loop.simps) (simp add: for_param_elems_prepend)
        next
          case (Inr tp1)
          then have "loop h1 tp1 = Some y" using body False f by simp
          then have "set_inference_mode_loop h1 (st1 @ tp1) =
               (case y of
                  (Inl e, h2) \<Rightarrow> Some (Inl e, h2)
                | (Inr u, h2) \<Rightarrow> set_inference_mode_loop h2 st1)"
            using IH by blast
          then show ?thesis
            using False l f Inr
            by (subst set_inference_mode_loop.simps) (simp add: for_param_elems_prepend)
        qed
      qed
    qed
  qed
  then show ?thesis by blast
qed

lemma rtrancl_Image_step: "r\<^sup>* `` A = A \<union> r\<^sup>* `` (r `` A)"
proof
  show "r\<^sup>* `` A \<subseteq> A \<union> r\<^sup>* `` (r `` A)"
  proof
    fix b assume "b \<in> r\<^sup>* `` A"
    then obtain a where a: "a \<in> A" "(a, b) \<in> r\<^sup>*" by auto
    from a(2) show "b \<in> A \<union> r\<^sup>* `` (r `` A)"
    proof (cases rule: converse_rtranclE)
      case base
      then show ?thesis using a(1) by simp
    next
      case (step c)
      then show ?thesis using a(1) by auto
    qed
  qed
  show "A \<union> r\<^sup>* `` (r `` A) \<subseteq> r\<^sup>* `` A"
    by (auto intro: converse_rtrancl_into_rtrancl)
qed

lemma roots_concat: "roots h (concat xss) = concat (map (roots h) xss)"
  by (induction xss) simp_all

lemma roots_ordered_arguments_values:
  "roots h (ordered_arguments_values h e) = concat (map (children h) (config_elems h [e]))"
  by (cases e) (simp_all add: ordered_arguments_values_def children_def config_elems_Cons)

lemma set_roots_pushes:
  "set (roots h (concat (map (ordered_arguments_values h) elems)))
     = (\<Union>a \<in> set (config_elems h elems). set (children h a))"
proof (induction elems)
  case Nil
  show ?case by simp
next
  case (Cons e es)
  have "config_elems h (e # es) = config_elems h [e] @ config_elems h es"
    using config_elems_append [of h "[e]" es] by simp
  then show ?case
    using Cons by (simp add: roots_ordered_arguments_values)
qed

lemma set_roots_pushes_edges:
  "set (roots h (concat (map (ordered_arguments_values h) elems)))
     = edges h `` set (config_elems h elems)"
  unfolding set_roots_pushes
  by (auto simp: edges_def set_config_elems)

lemma pushes_Nil:
  assumes "config_elems h elems = []"
  shows "concat (map (ordered_arguments_values h) elems) = []"
  using assms
proof (induction elems)
  case Nil
  show ?case by simp
next
  case (Cons e es)
  have c: "config_elems h (e # es) = config_elems h [e] @ config_elems h es"
    using config_elems_append [of h "[e]" es] by simp
  then have 1: "config_elems h [e] = []" and 2: "config_elems h es = []"
    using Cons.prems by simp_all
  have "ordered_arguments_values h e = []"
    using 1 by (cases e) (simp_all add: ordered_arguments_values_def config_elems_Cons
        split: if_splits)
  then show ?case using Cons.IH [OF 2] by simp
qed

lemma config_elems_inference_store [simp]:
  "config_elems (inference_store S h) vs = config_elems h vs"
  by (rule config_elems_length_cong) simp

lemma roots_single: "roots h [p] = config_elems h (params_of p)"
  by (simp add: roots_def)

lemma loop_step:
  assumes typed: "quantization_typed h"
    and h1: "h1 = inference_store (set (roots h [p])) h"
    and pushes: "pushes = concat (map (ordered_arguments_values h1) (params_of p))"
    and push: "set_inference_mode_loop h1 pushes
                 = Some (Inr (), inference_store (reachable h1 pushes) h1)"
    and rest: "\<And>h'. quantization_typed h' \<Longrightarrow> length h' = length h \<Longrightarrow> edges h' = edges h
                 \<Longrightarrow> set_inference_mode_loop h' rest
                       = Some (Inr (), inference_store (reachable h' rest) h')"
  shows "set_inference_mode_loop h (rest @ [p])
           = Some (Inr (), inference_store (reachable h (rest @ [p])) h)"
proof -
  let ?R = "set (roots h [p])"
  let ?E = "edges h"
  have f: "for_param_elems h (params_of p) rest = (Inr (rest @ pushes), h1)"
    using for_param_elems_typed [OF typed, of "params_of p" rest]
    by (simp add: h1 pushes roots_single)
  have unfold: "set_inference_mode_loop h (rest @ [p]) = set_inference_mode_loop h1 (rest @ pushes)"
    by (subst set_inference_mode_loop.simps) (simp add: f)
  let ?h2 = "inference_store (reachable h1 pushes) h1"
  have t2: "quantization_typed ?h2"
    unfolding h1 by (intro quantization_typed_inference_store typed)
  have h2S: "?h2 = inference_store (reachable h1 pushes \<union> ?R) h"
    unfolding h1 by (simp add: inference_store_Un)
  have r2: "set_inference_mode_loop ?h2 rest
              = Some (Inr (), inference_store (reachable ?h2 rest) ?h2)"
    by (rule rest [OF t2]) (simp_all add: h1)
  have comp: "set_inference_mode_loop h1 (rest @ pushes) = set_inference_mode_loop ?h2 rest"
    using set_inference_mode_loop_append [OF push, of rest] by simp
  have rp: "set (roots h1 pushes) = ?E `` ?R"
    unfolding pushes set_roots_pushes_edges
    by (simp add: h1 roots_single)
  have e1: "edges h1 = edges h" by (simp add: h1)
  have reach: "reachable h (rest @ [p]) = reachable h rest \<union> (reachable h1 pushes \<union> ?R)"
  proof -
    have "reachable h (rest @ [p]) = ?E\<^sup>* `` set (roots h rest) \<union> ?E\<^sup>* `` ?R"
      by (simp add: reachable_def Image_Un)
    also have "?E\<^sup>* `` ?R = ?R \<union> ?E\<^sup>* `` (?E `` ?R)"
      by (rule rtrancl_Image_step)
    also have "?E\<^sup>* `` (?E `` ?R) = reachable h1 pushes"
      using e1 by (simp only: reachable_def rp)
    finally show ?thesis by (auto simp: reachable_def)
  qed
  have final: "inference_store (reachable ?h2 rest) ?h2
                 = inference_store (reachable h (rest @ [p])) h"
    unfolding reach h2S by (simp add: inference_store_Un)
  show ?thesis
    unfolding unfold comp r2 final ..
qed


lemma ranked_edges: "ranked rk h \<longleftrightarrow> (\<forall>a b. (a, b) \<in> edges h \<longrightarrow> rk b < rk a)"
  by (auto simp: ranked_def edges_def list_all_iff)

lemma set_inference_mode_loop_correct:
  assumes "quantization_typed h" "ranked rk h" "\<forall>a \<in> set (roots h st). rk a < N"
  shows "set_inference_mode_loop h st = Some (Inr (), inference_store (reachable h st) h)"
  using assms
proof (induction N arbitrary: h st)
  case 0
  from "0.prems" show ?case
  proof (induction st arbitrary: h rule: rev_induct)
    case Nil
    show ?case
      by (subst set_inference_mode_loop.simps) (simp add: reachable_def)
  next
    case (snoc p rest)
    have none: "roots h [p] = []" using snoc.prems(3) by (cases "roots h [p]") auto
    have h1: "h = inference_store (set (roots h [p])) h" by (simp add: none)
    have pushes: "[] = concat (map (ordered_arguments_values h) (params_of p))"
      using pushes_Nil [of h "params_of p"] none by (simp add: roots_single)
    have push: "set_inference_mode_loop h [] = Some (Inr (), inference_store (reachable h []) h)"
      by (subst set_inference_mode_loop.simps) (simp add: reachable_def)
    show ?case
    proof (rule loop_step [OF snoc.prems(1) h1 pushes push])
      fix h' assume t: "quantization_typed h'" and l: "length h' = length h"
        and e: "edges h' = edges h"
      have r: "ranked rk h'" using snoc.prems(2) e by (simp add: ranked_edges)
      have b: "\<forall>a\<in>set (roots h' rest). rk a < 0"
        using snoc.prems(3) by (simp add: roots_length_cong [OF l])
      show "set_inference_mode_loop h' rest =
              Some (Inr (), inference_store (reachable h' rest) h')"
        by (rule snoc.IH [OF t r b])
    qed
  qed
next
  case (Suc N)
  from Suc.prems show ?case
  proof (induction st arbitrary: h rule: rev_induct)
    case Nil
    show ?case
      by (subst set_inference_mode_loop.simps) (simp add: reachable_def)
  next
    case (snoc p rest)
    define h1 where "h1 = inference_store (set (roots h [p])) h"
    define pushes where "pushes = concat (map (ordered_arguments_values h1) (params_of p))"
    have t1: "quantization_typed h1"
      unfolding h1_def by (intro quantization_typed_inference_store snoc.prems(1))
    have r1: "ranked rk h1"
      unfolding h1_def by (intro ranked_inference_store snoc.prems(2))
    have rp: "set (roots h1 pushes) = edges h `` set (roots h [p])"
      unfolding pushes_def set_roots_pushes_edges
      by (simp add: h1_def roots_single)
    have b1: "\<forall>a\<in>set (roots h1 pushes). rk a < N"
    proof
      fix b assume "b \<in> set (roots h1 pushes)"
      then obtain a where a: "a \<in> set (roots h [p])" "(a, b) \<in> edges h"
        unfolding rp by auto
      have "rk b < rk a" using a(2) snoc.prems(2) by (simp add: ranked_edges)
      moreover have "rk a < Suc N" using a(1) snoc.prems(3) by simp
      ultimately show "rk b < N" by simp
    qed
    have push: "set_inference_mode_loop h1 pushes
                 = Some (Inr (), inference_store (reachable h1 pushes) h1)"
      by (rule Suc.IH [OF t1 r1 b1])
    show ?case
    proof (rule loop_step [OF snoc.prems(1) h1_def pushes_def push])
      fix h' assume t: "quantization_typed h'" and l: "length h' = length h"
        and e: "edges h' = edges h"
      have r: "ranked rk h'" using snoc.prems(2) e by (simp add: ranked_edges)
      have b: "\<forall>a\<in>set (roots h' rest). rk a < Suc N"
        using snoc.prems(3) by (simp add: roots_length_cong [OF l])
      show "set_inference_mode_loop h' rest =
              Some (Inr (), inference_store (reachable h' rest) h')"
        by (rule snoc.IH [OF t r b])
    qed
  qed
qed

lemma reachable_valid: "a \<in> reachable h st \<Longrightarrow> a < length h"
proof -
  have "b < length h" if "(a, b) \<in> (edges h)\<^sup>*" "a < length h" for a b
    using that
    by (induction rule: rtrancl_induct)
      (auto simp: edges_def children_def roots_def set_config_elems)
  moreover have "a < length h" if "a \<in> set (roots h st)" for a
    using that by (auto simp: roots_def set_config_elems)
  ultimately show "a \<in> reachable h st \<Longrightarrow> a < length h"
    by (auto simp: reachable_def)
qed



section \<open>Building a template twice\<close>

text \<open>
  What one call of \<open>build\<close> leaves behind is described by its memo \<open>\<mu>\<close>: \<open>img \<mu> v\<close> is
  the built form of the argument value \<open>v\<close>, in which every node is replaced by the
  instance the memo gives it, and \<open>built \<mu> v\<close> says that the memo has an instance for
  every node of \<open>v\<close>. \<open>slot\<close> is the field that an argument becomes: a template field
  keeps the argument, any other field holds its built form.
\<close>

fun img :: "memo \<Rightarrow> val \<Rightarrow> ival" where
  "img \<mu> (VCfg a) = (case map_of \<mu> a of Some i \<Rightarrow> IObj i | None \<Rightarrow> IPrim (VCfg a))"
| "img \<mu> (VSeq vs) = ISeq (map (img \<mu>) vs)"
| "img \<mu> v = IPrim v"

fun built :: "memo \<Rightarrow> val \<Rightarrow> bool" where
  "built \<mu> (VCfg a) = (map_of \<mu> a \<noteq> None)"
| "built \<mu> (VSeq vs) = list_all (built \<mu>) vs"
| "built \<mu> v = True"

definition slot ::
  "(pyclass \<Rightarrow> string \<Rightarrow> bool) \<Rightarrow> pyclass \<Rightarrow> memo \<Rightarrow> string \<times> val \<Rightarrow> string \<times> ival" where
  "slot tf c \<mu> kv = (fst kv, if tf c (fst kv) then IPrim (snd kv) else img \<mu> (snd kv))"

text \<open>
  \<open>ival_in lo hi y\<close>: every instance that \<open>y\<close> refers to has its address in the range from
  \<open>lo\<close> up to, not including, \<open>hi\<close>.
\<close>

fun ival_in :: "nat \<Rightarrow> nat \<Rightarrow> ival \<Rightarrow> bool" where
  "ival_in lo hi (IObj i) = (lo \<le> i \<and> i < hi)"
| "ival_in lo hi (ISeq ys) = list_all (ival_in lo hi) ys"
| "ival_in lo hi (IPrim v) = True"

definition obj_in :: "nat \<Rightarrow> nat \<Rightarrow> obj \<Rightarrow> bool" where
  "obj_in lo hi ob = list_all (\<lambda>ky. ival_in lo hi (snd ky)) (obj_fields ob)"

definition slots_built ::
  "(pyclass \<Rightarrow> string \<Rightarrow> bool) \<Rightarrow> pyclass \<Rightarrow> memo \<Rightarrow> (string \<times> val) list \<Rightarrow> bool" where
  "slots_built tf c \<mu> kvs = list_all (\<lambda>kv. tf c (fst kv) \<or> built \<mu> (snd kv)) kvs"

text \<open>
  \<open>memo_ok\<close>: every node of the memo has its instance in the store, at an address from
  \<open>lo\<close> on, of the node's class, with the node's arguments as fields, each built through
  the same memo. \<open>objs_ok\<close>: an instance made from \<open>lo\<close> on refers only to instances
  made from \<open>lo\<close> on and before itself. \<open>memo_onto\<close>: every instance made from \<open>lo\<close> on is
  the instance that the memo gives to some node.
\<close>

definition memo_le :: "memo \<Rightarrow> memo \<Rightarrow> bool" where
  "memo_le \<mu> \<mu>' = (\<forall>a i. map_of \<mu> a = Some i \<longrightarrow> map_of \<mu>' a = Some i)"

definition memo_ok :: "(pyclass \<Rightarrow> string \<Rightarrow> bool) \<Rightarrow> heap \<Rightarrow> nat \<Rightarrow> memo \<times> objs \<Rightarrow> bool" where
  "memo_ok tf h lo st =
     (\<forall>p j. map_of (fst st) p = Some j \<longrightarrow>
        lo \<le> j \<and> j < length (snd st) \<and> p < length h
        \<and> snd st ! j = Obj (cls (h ! p)) (map (slot tf (cls (h ! p)) (fst st)) (args (h ! p)))
        \<and> slots_built tf (cls (h ! p)) (fst st) (args (h ! p)))"

definition objs_ok :: "nat \<Rightarrow> objs \<Rightarrow> bool" where
  "objs_ok lo objs = (\<forall>j. lo \<le> j \<longrightarrow> j < length objs \<longrightarrow> obj_in lo j (objs ! j))"

definition memo_onto :: "nat \<Rightarrow> memo \<times> objs \<Rightarrow> bool" where
  "memo_onto lo st =
     (\<forall>j. lo \<le> j \<longrightarrow> j < length (snd st) \<longrightarrow> (\<exists>p. map_of (fst st) p = Some j))"

definition good :: "(pyclass \<Rightarrow> string \<Rightarrow> bool) \<Rightarrow> heap \<Rightarrow> nat \<Rightarrow> memo \<times> objs \<Rightarrow> bool" where
  "good tf h lo st =
     (memo_ok tf h lo st \<and> objs_ok lo (snd st) \<and> memo_onto lo st \<and> lo \<le> length (snd st))"

text \<open>
  \<open>ext\<close>: the store has only grown, the memo has kept every entry it had, and no node
  that is under construction has entered the memo.
\<close>

definition ext :: "addr list \<Rightarrow> memo \<times> objs \<Rightarrow> memo \<times> objs \<Rightarrow> bool" where
  "ext stack st st' =
     ((\<exists>new. snd st' = snd st @ new) \<and> memo_le (fst st) (fst st')
      \<and> (\<forall>k. map_of (fst st) k = None \<longrightarrow> map_of (fst st') k \<noteq> None \<longrightarrow> k \<notin> set stack))"

lemma memo_le_refl: "memo_le \<mu> \<mu>"
  by (simp add: memo_le_def)

lemma memo_le_trans: "memo_le \<mu> \<mu>1 \<Longrightarrow> memo_le \<mu>1 \<mu>2 \<Longrightarrow> memo_le \<mu> \<mu>2"
  by (simp add: memo_le_def)

lemma memo_le_Cons: "map_of \<mu> a = None \<Longrightarrow> memo_le \<mu> ((a, l) # \<mu>)"
  by (auto simp add: memo_le_def)

lemma ext_refl: "ext stack st st"
  by (simp add: ext_def memo_le_refl)

lemma ext_trans:
  assumes "ext stack st st1" "ext stack st1 st2"
  shows "ext stack st st2"
proof -
  from assms obtain n1 n2 where "snd st1 = snd st @ n1" "snd st2 = snd st1 @ n2"
    unfolding ext_def by blast
  then have 1: "\<exists>new. snd st2 = snd st @ new" by simp
  have 2: "memo_le (fst st) (fst st2)"
    using assms memo_le_trans unfolding ext_def by blast
  have 3: "k \<notin> set stack" if "map_of (fst st) k = None" "map_of (fst st2) k \<noteq> None" for k
  proof (cases "map_of (fst st1) k")
    case None
    with that assms(2) show ?thesis unfolding ext_def by blast
  next
    case (Some j)
    with that assms(1) show ?thesis unfolding ext_def by auto
  qed
  from 1 2 3 show ?thesis unfolding ext_def by blast
qed

lemma ext_stack: "ext (a # stack) st st' \<Longrightarrow> ext stack st st'"
  by (simp add: ext_def)

lemma ext_length: "ext stack st st' \<Longrightarrow> length (snd st) \<le> length (snd st')"
  by (auto simp add: ext_def)

lemma ext_memo_le: "ext stack st st' \<Longrightarrow> memo_le (fst st) (fst st')"
  by (simp add: ext_def)

lemma img_stable:
  "built \<mu> v \<Longrightarrow> memo_le \<mu> \<mu>' \<Longrightarrow> img \<mu>' v = img \<mu> v \<and> built \<mu>' v"
proof (induction v)
  case (VCfg a)
  then show ?case by (auto simp add: memo_le_def)
next
  case (VSeq vs)
  then show ?case by (auto simp add: list_all_iff)
qed simp_all

lemma slot_stable:
  assumes "slots_built tf c \<mu> kvs" "memo_le \<mu> \<mu>'"
  shows "map (slot tf c \<mu>') kvs = map (slot tf c \<mu>) kvs \<and> slots_built tf c \<mu>' kvs"
  using assms img_stable [OF _ assms(2)]
  by (auto simp add: slots_built_def list_all_iff slot_def)

lemma ival_in_mono: "ival_in lo hi y \<Longrightarrow> hi \<le> hi' \<Longrightarrow> ival_in lo hi' y"
  by (induction y) (auto simp add: list_all_iff)

lemma fields_in_mono:
  "list_all (\<lambda>ky. ival_in lo hi (snd ky)) fs \<Longrightarrow> hi \<le> hi' \<Longrightarrow>
   list_all (\<lambda>ky. ival_in lo hi' (snd ky)) fs"
  by (auto simp add: list_all_iff intro: ival_in_mono)

lemma seq_in_mono:
  "list_all (ival_in lo hi) ys \<Longrightarrow> hi \<le> hi' \<Longrightarrow> list_all (ival_in lo hi') ys"
  by (auto simp add: list_all_iff intro: ival_in_mono)

lemma good_alloc:
  assumes g: "good tf h lo st1" and a: "a < length h" and none: "map_of (fst st1) a = None"
    and b: "slots_built tf (cls (h ! a)) (fst st1) (args (h ! a))"
    and r: "list_all (\<lambda>ky. ival_in lo (length (snd st1)) (snd ky))
              (map (slot tf (cls (h ! a)) (fst st1)) (args (h ! a)))"
  shows "good tf h lo ((a, length (snd st1)) # fst st1,
           snd st1 @ [Obj (cls (h ! a)) (map (slot tf (cls (h ! a)) (fst st1)) (args (h ! a)))])"
proof -
  let ?l = "length (snd st1)"
  let ?\<mu> = "(a, ?l) # fst st1"
  let ?o = "Obj (cls (h ! a)) (map (slot tf (cls (h ! a)) (fst st1)) (args (h ! a)))"
  have le: "memo_le (fst st1) ?\<mu>" using none by (rule memo_le_Cons)
  have lo: "lo \<le> ?l" using g by (simp add: good_def)
  have mo: "memo_ok tf h lo st1" using g by (simp add: good_def)
  have "memo_ok tf h lo (?\<mu>, snd st1 @ [?o])"
    unfolding memo_ok_def fst_conv snd_conv
  proof (intro allI impI)
    fix p j
    assume pj: "map_of ?\<mu> p = Some j"
    show "lo \<le> j \<and> j < length (snd st1 @ [?o]) \<and> p < length h
        \<and> (snd st1 @ [?o]) ! j = Obj (cls (h ! p)) (map (slot tf (cls (h ! p)) ?\<mu>) (args (h ! p)))
        \<and> slots_built tf (cls (h ! p)) ?\<mu> (args (h ! p))"
    proof (cases "p = a")
      case True
      with pj have j: "j = ?l" by simp
      from slot_stable [OF b le] True j lo a show ?thesis by simp
    next
      case False
      with pj have old: "map_of (fst st1) p = Some j" by simp
      with mo have 1: "lo \<le> j" "j < ?l" "p < length h"
        "snd st1 ! j = Obj (cls (h ! p)) (map (slot tf (cls (h ! p)) (fst st1)) (args (h ! p)))"
        "slots_built tf (cls (h ! p)) (fst st1) (args (h ! p))"
        unfolding memo_ok_def by blast+
      from slot_stable [OF 1(5) le] 1 show ?thesis by (simp add: nth_append)
    qed
  qed
  moreover have "objs_ok lo (snd st1 @ [?o])"
    unfolding objs_ok_def
  proof (intro allI impI)
    fix j
    assume j: "lo \<le> j" "j < length (snd st1 @ [?o])"
    show "obj_in lo j ((snd st1 @ [?o]) ! j)"
    proof (cases "j < ?l")
      case True
      with j g show ?thesis by (simp add: good_def objs_ok_def nth_append)
    next
      case False
      with j have "j = ?l" by simp
      with r show ?thesis by (simp add: obj_in_def)
    qed
  qed
  moreover have "memo_onto lo (?\<mu>, snd st1 @ [?o])"
    unfolding memo_onto_def fst_conv snd_conv
  proof (intro allI impI)
    fix j
    assume j: "lo \<le> j" "j < length (snd st1 @ [?o])"
    show "\<exists>p. map_of ?\<mu> p = Some j"
    proof (cases "j < ?l")
      case True
      with j g obtain p where p: "map_of (fst st1) p = Some j"
        unfolding good_def memo_onto_def by blast
      with none have "p \<noteq> a" by auto
      with p have "map_of ?\<mu> p = Some j" by simp
      then show ?thesis ..
    next
      case False
      with j have "j = ?l" by simp
      then have "map_of ?\<mu> a = Some j" by simp
      then show ?thesis ..
    qed
  qed
  ultimately show ?thesis using lo by (simp add: good_def)
qed

lemma ext_alloc:
  assumes "map_of (fst st1) a = None" "a \<notin> set stack"
  shows "ext stack st1 ((a, l) # fst st1, snd st1 @ [ob])"
  using assms by (auto simp add: ext_def memo_le_def)

subsection \<open>One call\<close>

lemma build_val_VCfg_cases:
  assumes "build_val tf h stack st (VCfg a) = Inr (i, st')"
  obtains (hit) j where "map_of (fst st) a = Some j" "i = IObj j" "st' = st"
  | (alloc) fs st1 where "map_of (fst st) a = None" "a < length h" "a \<notin> set stack"
      "build_args tf h (a # stack) st (cls (h ! a)) (args (h ! a)) = Inr (fs, st1)"
      "i = IObj (length (snd st1))"
      "st' = ((a, length (snd st1)) # fst st1, snd st1 @ [Obj (cls (h ! a)) fs])"
  using assms
  by (auto simp add: heap_get_def split: option.splits if_splits sum.splits)

lemma build_val_VSeq_cases:
  assumes "build_val tf h stack st (VSeq vs) = Inr (i, st')"
  obtains ys where "build_seq tf h stack st vs = Inr (ys, st')" "i = ISeq ys"
  using assms by (auto split: sum.splits)

lemma build_val_prim:
  assumes "build_val tf h stack st v = Inr (i, st')" "\<forall>a. v \<noteq> VCfg a" "\<forall>vs. v \<noteq> VSeq vs"
  shows "i = IPrim v \<and> st' = st"
  using assms by (cases v) auto

lemma build_seq_Cons_cases:
  assumes "build_seq tf h stack st (v # vs) = Inr (ys, st')"
  obtains i st1 ys' where "build_val tf h stack st v = Inr (i, st1)"
    "build_seq tf h stack st1 vs = Inr (ys', st')" "ys = i # ys'"
  using assms by (auto split: sum.splits)

lemma build_args_Cons_cases:
  assumes "build_args tf h stack st c ((k, v) # kvs) = Inr (fs, st')"
  obtains (template) fs' where "v \<noteq> VUnset" "tf c k"
    "build_args tf h stack st c kvs = Inr (fs', st')" "fs = (k, IPrim v) # fs'"
  | (sub) i st1 fs' where "v \<noteq> VUnset" "\<not> tf c k" "build_val tf h stack st v = Inr (i, st1)"
    "build_args tf h stack st1 c kvs = Inr (fs', st')" "fs = (k, i) # fs'"
  using assms by (auto split: sum.splits if_splits)

lemma build_good:
  "build_val tf h stack st v = Inr (i, st') \<Longrightarrow> good tf h lo st \<Longrightarrow>
     ext stack st st' \<and> good tf h lo st' \<and> i = img (fst st') v \<and> built (fst st') v
     \<and> ival_in lo (length (snd st')) i"
  "build_seq tf h stack st vs = Inr (ys, st') \<Longrightarrow> good tf h lo st \<Longrightarrow>
     ext stack st st' \<and> good tf h lo st' \<and> ys = map (img (fst st')) vs
     \<and> list_all (built (fst st')) vs \<and> list_all (ival_in lo (length (snd st'))) ys"
  "build_args tf h stack st c kvs = Inr (fs, st') \<Longrightarrow> good tf h lo st \<Longrightarrow>
     ext stack st st' \<and> good tf h lo st' \<and> fs = map (slot tf c (fst st')) kvs
     \<and> slots_built tf c (fst st') kvs
     \<and> list_all (\<lambda>ky. ival_in lo (length (snd st')) (snd ky)) fs"
proof (induction tf h stack st v and tf h stack st vs and tf h stack st c kvs
       arbitrary: i st' and ys st' and fs st'
       rule: build_val_build_seq_build_args.induct)
  case (1 tf h stack st a)
  from "1.prems"(1) show ?case
  proof (cases rule: build_val_VCfg_cases)
    case (hit j)
    with "1.prems"(2) have "lo \<le> j \<and> j < length (snd st)"
      unfolding good_def memo_ok_def by blast
    with hit "1.prems"(2) show ?thesis by (simp add: ext_refl)
  next
    case (alloc fs st1)
    have hg: "heap_get h a = Some (h ! a)" using alloc(2) by (simp add: heap_get_def)
    from "1.IH" [OF alloc(1) hg alloc(3) alloc(4) "1.prems"(2)]
    have e: "ext (a # stack) st st1" and g: "good tf h lo st1"
      and fs: "fs = map (slot tf (cls (h ! a)) (fst st1)) (args (h ! a))"
      and b: "slots_built tf (cls (h ! a)) (fst st1) (args (h ! a))"
      and r: "list_all (\<lambda>ky. ival_in lo (length (snd st1)) (snd ky)) fs"
      by blast+
    have none: "map_of (fst st1) a = None"
    proof (rule ccontr)
      assume "map_of (fst st1) a \<noteq> None"
      with e alloc(1) have "a \<notin> set (a # stack)" unfolding ext_def by blast
      then show False by simp
    qed
    have g': "good tf h lo st'"
      unfolding alloc(6) fs using good_alloc [OF g alloc(2) none b r [unfolded fs]] .
    have e': "ext stack st st'"
      unfolding alloc(6)
      by (rule ext_trans [OF ext_stack [OF e] ext_alloc [OF none alloc(3)]])
    have lo: "lo \<le> length (snd st1)" using g by (simp add: good_def)
    from e' g' lo show ?thesis by (simp add: alloc(5) alloc(6))
  qed
next
  case (2 tf h stack st vs)
  from "2.prems"(1) show ?case
  proof (cases rule: build_val_VSeq_cases)
    case (1 ys)
    from "2.IH" [OF 1(1) "2.prems"(2)]
    have e: "ext stack st st'" and g: "good tf h lo st'"
      and ys: "ys = map (img (fst st')) vs" and b: "list_all (built (fst st')) vs"
      and r: "list_all (ival_in lo (length (snd st'))) ys"
      by blast+
    have "i = img (fst st') (VSeq vs)" by (simp add: 1(2) ys)
    moreover have "built (fst st') (VSeq vs)" using b by simp
    moreover have "ival_in lo (length (snd st')) i" using r by (simp add: 1(2))
    ultimately show ?thesis using e g by blast
  qed
next
  case (4 tf h stack st)
  then show ?case by (simp add: ext_refl)
next
  case (5 tf h stack st v vs)
  from "5.prems"(1) show ?case
  proof (cases rule: build_seq_Cons_cases)
    case (1 i st1 ys')
    from "5.IH"(1) [OF 1(1) "5.prems"(2)]
    have e1: "ext stack st st1" and g1: "good tf h lo st1" and i: "i = img (fst st1) v"
      and b1: "built (fst st1) v" and r1: "ival_in lo (length (snd st1)) i"
      by blast+
    from "5.IH"(2) [OF 1(1) refl 1(2) g1]
    have e2: "ext stack st1 st'" and g2: "good tf h lo st'"
      and ys: "ys' = map (img (fst st')) vs" and b2: "list_all (built (fst st')) vs"
      and r2: "list_all (ival_in lo (length (snd st'))) ys'"
      by blast+
    from img_stable [OF b1 ext_memo_le [OF e2]] i
    have i': "i = img (fst st') v" and b': "built (fst st') v" by simp_all
    have r': "ival_in lo (length (snd st')) i"
      using ival_in_mono [OF r1 ext_length [OF e2]] .
    from r2 r' have "list_all (ival_in lo (length (snd st'))) ys" by (simp add: 1(3))
    moreover have "ys = map (img (fst st')) (v # vs)" using i' by (simp add: 1(3) ys)
    moreover have "list_all (built (fst st')) (v # vs)" using b2 b' by simp
    ultimately show ?thesis using ext_trans [OF e1 e2] g2 by blast
  qed
next
  case (6 tf h stack st c)
  then show ?case by (simp add: ext_refl slots_built_def)
next
  case (7 tf h stack st c k v kvs)
  from "7.prems"(1) show ?case
  proof (cases rule: build_args_Cons_cases)
    case (template fs')
    have "(if tf c k then Inr (IPrim v, st) else build_val tf h stack st v) = Inr (IPrim v, st)"
      using template(2) by simp
    from "7.IH"(2) [OF template(1) this refl template(3) "7.prems"(2)]
    have e2: "ext stack st st'" and g2: "good tf h lo st'"
      and fs: "fs' = map (slot tf c (fst st')) kvs" and b2: "slots_built tf c (fst st') kvs"
      and r2: "list_all (\<lambda>ky. ival_in lo (length (snd st')) (snd ky)) fs'"
      by blast+
    from r2 have "list_all (\<lambda>ky. ival_in lo (length (snd st')) (snd ky)) fs"
      by (simp add: template(4))
    moreover have "fs = map (slot tf c (fst st')) ((k, v) # kvs)"
      using template(2) by (simp add: template(4) fs slot_def)
    moreover have "slots_built tf c (fst st') ((k, v) # kvs)"
      using b2 template(2) by (simp add: slots_built_def)
    ultimately show ?thesis using e2 g2 by blast
  next
    case (sub i st1 fs')
    from "7.IH"(1) [OF sub(1) sub(2) sub(3) "7.prems"(2)]
    have e1: "ext stack st st1" and g1: "good tf h lo st1" and i: "i = img (fst st1) v"
      and b1: "built (fst st1) v" and r1: "ival_in lo (length (snd st1)) i"
      by blast+
    have "(if tf c k then Inr (IPrim v, st) else build_val tf h stack st v) = Inr (i, st1)"
      using sub(2) sub(3) by simp
    from "7.IH"(2) [OF sub(1) this refl sub(4) g1]
    have e2: "ext stack st1 st'" and g2: "good tf h lo st'"
      and fs: "fs' = map (slot tf c (fst st')) kvs" and b2: "slots_built tf c (fst st') kvs"
      and r2: "list_all (\<lambda>ky. ival_in lo (length (snd st')) (snd ky)) fs'"
      by blast+
    from img_stable [OF b1 ext_memo_le [OF e2]] i
    have i': "i = img (fst st') v" and b': "built (fst st') v" by simp_all
    have r': "ival_in lo (length (snd st')) i"
      using ival_in_mono [OF r1 ext_length [OF e2]] .
    from r2 r' have "list_all (\<lambda>ky. ival_in lo (length (snd st')) (snd ky)) fs"
      by (simp add: sub(5))
    moreover have "fs = map (slot tf c (fst st')) ((k, v) # kvs)"
      using sub(2) i' by (simp add: sub(5) fs slot_def)
    moreover have "slots_built tf c (fst st') ((k, v) # kvs)"
      using b2 b' by (simp add: slots_built_def)
    ultimately show ?thesis using ext_trans [OF e1 e2] g2 by blast
  qed
qed (simp_all add: ext_refl)

subsection \<open>When a call returns\<close>

text \<open>
  \<open>refs_of v\<close> lists the nodes that the argument value \<open>v\<close> refers to. A store is
  \<open>buildable\<close> for a rank when no argument is at the unset sentinel and every argument
  that is not a template field refers only to nodes of the store of a smaller rank than
  the node that holds it: the graph that a call walks has no cycle and no dangling
  reference. On such a store every call returns.
\<close>

fun refs_of :: "val \<Rightarrow> addr list" where
  "refs_of (VCfg a) = [a]"
| "refs_of (VSeq vs) = concat (map refs_of vs)"
| "refs_of v = []"

definition buildable_arg ::
  "(pyclass \<Rightarrow> string \<Rightarrow> bool) \<Rightarrow> (addr \<Rightarrow> nat) \<Rightarrow> heap \<Rightarrow> pyclass \<Rightarrow> nat \<Rightarrow> string \<times> val \<Rightarrow> bool" where
  "buildable_arg tf rk h c n kv =
     (snd kv \<noteq> VUnset
      \<and> (tf c (fst kv) \<or> list_all (\<lambda>b. b < length h \<and> rk b < n) (refs_of (snd kv))))"

definition buildable :: "(pyclass \<Rightarrow> string \<Rightarrow> bool) \<Rightarrow> (addr \<Rightarrow> nat) \<Rightarrow> heap \<Rightarrow> bool" where
  "buildable tf rk h =
     list_all (\<lambda>a. list_all (buildable_arg tf rk h (cls (h ! a)) (rk a)) (args (h ! a)))
       [0..<length h]"

definition below :: "(addr \<Rightarrow> nat) \<Rightarrow> heap \<Rightarrow> addr list \<Rightarrow> val \<Rightarrow> bool" where
  "below rk h stack v =
     (\<forall>b\<in>set (refs_of v). b < length h \<and> (\<forall>s\<in>set stack. rk b < rk s))"

lemma build_returns:
  "buildable tf rk h \<Longrightarrow> below rk h stack v \<Longrightarrow>
     \<exists>r st'. build_val tf h stack st v = Inr (r, st')"
  "buildable tf rk h \<Longrightarrow> \<forall>v\<in>set vs. below rk h stack v \<Longrightarrow>
     \<exists>ys st'. build_seq tf h stack st vs = Inr (ys, st')"
  "buildable tf rk h \<Longrightarrow>
     \<forall>kv\<in>set kvs. snd kv \<noteq> VUnset \<and> (tf c (fst kv) \<or> below rk h stack (snd kv)) \<Longrightarrow>
     \<exists>fs st'. build_args tf h stack st c kvs = Inr (fs, st')"
proof (induction tf h stack st v and tf h stack st vs and tf h stack st c kvs
       rule: build_val_build_seq_build_args.induct)
  case (1 tf h stack st a)
  from "1.prems"(2) have a: "a < length h" and s: "\<forall>s\<in>set stack. rk a < rk s"
    by (simp_all add: below_def)
  show ?case
  proof (cases "map_of (fst st) a")
    case (Some j)
    then show ?thesis by simp
  next
    case None
    have hg: "heap_get h a = Some (h ! a)" using a by (simp add: heap_get_def)
    have ns: "a \<notin> set stack" using s by auto
    have args: "list_all (buildable_arg tf rk h (cls (h ! a)) (rk a)) (args (h ! a))"
      using "1.prems"(1) a by (simp add: buildable_def list_all_iff)
    have "\<forall>kv\<in>set (args (h ! a)). snd kv \<noteq> VUnset
            \<and> (tf (cls (h ! a)) (fst kv) \<or> below rk h (a # stack) (snd kv))"
    proof
      fix kv
      assume "kv \<in> set (args (h ! a))"
      with args have b: "buildable_arg tf rk h (cls (h ! a)) (rk a) kv"
        by (simp add: list_all_iff)
      show "snd kv \<noteq> VUnset \<and> (tf (cls (h ! a)) (fst kv) \<or> below rk h (a # stack) (snd kv))"
        using b s by (fastforce simp add: buildable_arg_def below_def list_all_iff)
    qed
    from "1.IH" [OF None hg ns "1.prems"(1) this]
    obtain fs st1 where "build_args tf h (a # stack) st (cls (h ! a)) (args (h ! a)) = Inr (fs, st1)"
      by blast
    then show ?thesis using None hg ns by simp
  qed
next
  case (2 tf h stack st vs)
  have "\<forall>v\<in>set vs. below rk h stack v" using "2.prems"(2) by (simp add: below_def)
  from "2.IH" [OF "2.prems"(1) this] show ?case by auto
next
  case (4 tf h stack st)
  show ?case by simp
next
  case (5 tf h stack st v vs)
  from "5.IH"(1) [OF "5.prems"(1)] "5.prems"(2)
  obtain i st1 where b1: "build_val tf h stack st v = Inr (i, st1)" by auto
  from "5.IH"(2) [OF b1 refl "5.prems"(1)] "5.prems"(2)
  obtain ys st2 where "build_seq tf h stack st1 vs = Inr (ys, st2)" by auto
  with b1 show ?case by simp
next
  case (6 tf h stack st c)
  show ?case by simp
next
  case (7 tf h stack st c k v kvs)
  from "7.prems"(2) have v: "v \<noteq> VUnset" and t: "tf c k \<or> below rk h stack v"
    and rest: "\<forall>kv\<in>set kvs. snd kv \<noteq> VUnset \<and> (tf c (fst kv) \<or> below rk h stack (snd kv))"
    by simp_all
  have "\<exists>i st1. (if tf c k then Inr (IPrim v, st) else build_val tf h stack st v) = Inr (i, st1)"
  proof (cases "tf c k")
    case True
    then show ?thesis by simp
  next
    case False
    with t have "below rk h stack v" by simp
    from "7.IH"(1) [OF v False "7.prems"(1) this] False show ?thesis by simp
  qed
  then obtain i st1 where
    b1: "(if tf c k then Inr (IPrim v, st) else build_val tf h stack st v) = Inr (i, st1)"
    by blast
  from "7.IH"(2) [OF v b1 refl "7.prems"(1) rest]
  obtain fs st2 where "build_args tf h stack st1 c kvs = Inr (fs, st2)" by blast
  with b1 v show ?case by simp
qed simp_all

lemma pax_fiddle_build_returns:
  assumes "buildable tf rk h" "list_all (\<lambda>b. b < length h) (refs_of root)"
  shows "\<exists>r objs'. pax_fiddle_build tf h objs root = Inr (r, objs')"
proof -
  have "below rk h [] root" using assms(2) by (simp add: below_def list_all_iff)
  from build_returns(1) [OF assms(1) this, of "([], objs)"]
  obtain r st' where "build_val tf h [] ([], objs) root = Inr (r, st')" by blast
  then show ?thesis by (cases st') (simp add: pax_fiddle_build_def)
qed

text \<open>
  The configuration of \<open>test_shared_vehicle_owners\<close> is buildable.
\<close>

lemma shared_owner_config_buildable:
  "buildable is_template_field (\<lambda>a. 5 - a) shared_owner_config"
  by code_simp

subsection \<open>The same call from a later store\<close>

text \<open>
  \<open>shift_ival d\<close> relocates every reference to an instance by \<open>d\<close> addresses. A call
  that starts from a store that is \<open>d\<close> instances longer makes the same instances,
  relocated by \<open>d\<close>.
\<close>

fun shift_ival :: "nat \<Rightarrow> ival \<Rightarrow> ival" where
  "shift_ival d (IObj i) = IObj (i + d)"
| "shift_ival d (ISeq ys) = ISeq (map (shift_ival d) ys)"
| "shift_ival d (IPrim v) = IPrim v"

definition shift_fields :: "nat \<Rightarrow> (string \<times> ival) list \<Rightarrow> (string \<times> ival) list" where
  "shift_fields d fs = map (\<lambda>ky. (fst ky, shift_ival d (snd ky))) fs"

definition shift_obj :: "nat \<Rightarrow> obj \<Rightarrow> obj" where
  "shift_obj d ob = Obj (obj_cls ob) (shift_fields d (obj_fields ob))"

definition shift_memo :: "nat \<Rightarrow> memo \<Rightarrow> memo" where
  "shift_memo d \<mu> = map (\<lambda>aj. (fst aj, snd aj + d)) \<mu>"

lemma map_of_shift_memo:
  "map_of (shift_memo d \<mu>) a = map_option (\<lambda>j. j + d) (map_of \<mu> a)"
  by (induction \<mu>) (auto simp add: shift_memo_def)

lemma shift_memo_Cons: "shift_memo d ((a, j) # \<mu>) = (a, j + d) # shift_memo d \<mu>"
  by (simp add: shift_memo_def)

lemma shift_obj_Obj: "shift_obj d (Obj c fs) = Obj c (shift_fields d fs)"
  by (simp add: shift_obj_def)

lemma build_relocate:
  "build_val tf h stack st v = Inr (i, st') \<Longrightarrow> length objsB = length (snd st) + d \<Longrightarrow>
     \<exists>new. snd st' = snd st @ new
       \<and> build_val tf h stack (shift_memo d (fst st), objsB) v =
           Inr (shift_ival d i, shift_memo d (fst st'), objsB @ map (shift_obj d) new)"
  "build_seq tf h stack st vs = Inr (ys, st') \<Longrightarrow> length objsB = length (snd st) + d \<Longrightarrow>
     \<exists>new. snd st' = snd st @ new
       \<and> build_seq tf h stack (shift_memo d (fst st), objsB) vs =
           Inr (map (shift_ival d) ys, shift_memo d (fst st'), objsB @ map (shift_obj d) new)"
  "build_args tf h stack st c kvs = Inr (fs, st') \<Longrightarrow> length objsB = length (snd st) + d \<Longrightarrow>
     \<exists>new. snd st' = snd st @ new
       \<and> build_args tf h stack (shift_memo d (fst st), objsB) c kvs =
           Inr (shift_fields d fs, shift_memo d (fst st'), objsB @ map (shift_obj d) new)"
proof (induction tf h stack st v and tf h stack st vs and tf h stack st c kvs
       arbitrary: i st' objsB and ys st' objsB and fs st' objsB
       rule: build_val_build_seq_build_args.induct)
  case (1 tf h stack st a)
  from "1.prems"(1) show ?case
  proof (cases rule: build_val_VCfg_cases)
    case (hit j)
    then show ?thesis by (simp add: map_of_shift_memo)
  next
    case (alloc fs st1)
    have hg: "heap_get h a = Some (h ! a)" using alloc(2) by (simp add: heap_get_def)
    from "1.IH" [OF alloc(1) hg alloc(3) alloc(4) "1.prems"(2)]
    obtain new where n: "snd st1 = snd st @ new"
      and b: "build_args tf h (a # stack) (shift_memo d (fst st), objsB) (cls (h ! a)) (args (h ! a)) =
                Inr (shift_fields d fs, shift_memo d (fst st1), objsB @ map (shift_obj d) new)"
      by blast
    have 1: "snd st' = snd st @ (new @ [Obj (cls (h ! a)) fs])"
      by (simp add: alloc(6) n)
    have 2: "build_val tf h stack (shift_memo d (fst st), objsB) (VCfg a) =
        Inr (shift_ival d i, shift_memo d (fst st'),
             objsB @ map (shift_obj d) (new @ [Obj (cls (h ! a)) fs]))"
      using alloc(1) alloc(3) "1.prems"(2)
      by (simp add: map_of_shift_memo hg b alloc(5) alloc(6) n shift_memo_Cons shift_obj_Obj)
    from 1 2 show ?thesis by blast
  qed
next
  case (2 tf h stack st vs)
  from "2.prems"(1) show ?case
  proof (cases rule: build_val_VSeq_cases)
    case (1 ys)
    from "2.IH" [OF 1(1) "2.prems"(2)] show ?thesis by (auto simp add: 1(2))
  qed
next
  case (4 tf h stack st)
  then show ?case by simp
next
  case (5 tf h stack st v vs)
  from "5.prems"(1) show ?case
  proof (cases rule: build_seq_Cons_cases)
    case (1 i st1 ys')
    from "5.IH"(1) [OF 1(1) "5.prems"(2)]
    obtain new1 where n1: "snd st1 = snd st @ new1"
      and b1: "build_val tf h stack (shift_memo d (fst st), objsB) v =
                Inr (shift_ival d i, shift_memo d (fst st1), objsB @ map (shift_obj d) new1)"
      by blast
    have len: "length (objsB @ map (shift_obj d) new1) = length (snd st1) + d"
      using "5.prems"(2) by (simp add: n1)
    from "5.IH"(2) [OF 1(1) refl 1(2) len]
    obtain new2 where n2: "snd st' = snd st1 @ new2"
      and b2: "build_seq tf h stack (shift_memo d (fst st1), objsB @ map (shift_obj d) new1) vs =
                Inr (map (shift_ival d) ys', shift_memo d (fst st'),
                     (objsB @ map (shift_obj d) new1) @ map (shift_obj d) new2)"
      by blast
    have "snd st' = snd st @ (new1 @ new2)" by (simp add: n1 n2)
    moreover have "build_seq tf h stack (shift_memo d (fst st), objsB) (v # vs) =
        Inr (map (shift_ival d) ys, shift_memo d (fst st'),
             objsB @ map (shift_obj d) (new1 @ new2))"
      by (simp add: b1 b2 1(3))
    ultimately show ?thesis by blast
  qed
next
  case (6 tf h stack st c)
  then show ?case by (simp add: shift_fields_def)
next
  case (7 tf h stack st c k v kvs)
  from "7.prems"(1) show ?case
  proof (cases rule: build_args_Cons_cases)
    case (template fs')
    have "(if tf c k then Inr (IPrim v, st) else build_val tf h stack st v) = Inr (IPrim v, st)"
      using template(2) by simp
    from "7.IH"(2) [OF template(1) this refl template(3) "7.prems"(2)]
    obtain new where n: "snd st' = snd st @ new"
      and b: "build_args tf h stack (shift_memo d (fst st), objsB) c kvs =
                Inr (shift_fields d fs', shift_memo d (fst st'), objsB @ map (shift_obj d) new)"
      by blast
    have "build_args tf h stack (shift_memo d (fst st), objsB) c ((k, v) # kvs) =
        Inr (shift_fields d fs, shift_memo d (fst st'), objsB @ map (shift_obj d) new)"
      using template(1) template(2) by (simp add: b template(4) shift_fields_def)
    with n show ?thesis by blast
  next
    case (sub i st1 fs')
    from "7.IH"(1) [OF sub(1) sub(2) sub(3) "7.prems"(2)]
    obtain new1 where n1: "snd st1 = snd st @ new1"
      and b1: "build_val tf h stack (shift_memo d (fst st), objsB) v =
                Inr (shift_ival d i, shift_memo d (fst st1), objsB @ map (shift_obj d) new1)"
      by blast
    have len: "length (objsB @ map (shift_obj d) new1) = length (snd st1) + d"
      using "7.prems"(2) by (simp add: n1)
    have "(if tf c k then Inr (IPrim v, st) else build_val tf h stack st v) = Inr (i, st1)"
      using sub(2) sub(3) by simp
    from "7.IH"(2) [OF sub(1) this refl sub(4) len]
    obtain new2 where n2: "snd st' = snd st1 @ new2"
      and b2: "build_args tf h stack (shift_memo d (fst st1), objsB @ map (shift_obj d) new1) c kvs =
                Inr (shift_fields d fs', shift_memo d (fst st'),
                     (objsB @ map (shift_obj d) new1) @ map (shift_obj d) new2)"
      by blast
    have "snd st' = snd st @ (new1 @ new2)" by (simp add: n1 n2)
    moreover have "build_args tf h stack (shift_memo d (fst st), objsB) c ((k, v) # kvs) =
        Inr (shift_fields d fs, shift_memo d (fst st'),
             objsB @ map (shift_obj d) (new1 @ new2))"
      using sub(1) sub(2) by (simp add: b1 b2 sub(5) shift_fields_def)
    ultimately show ?thesis by blast
  qed
qed auto

subsection \<open>Equality by value\<close>

text \<open>
  Two instances are equal by value when they have the same class and their fields are
  equal by value, field by field. \<open>value_of n objs y\<close> unfolds \<open>y\<close> in the store to the
  depth \<open>n\<close> into a tree without addresses; equality by value is equality of the trees at
  every depth.
\<close>

datatype tree =
    TPrim val
  | TObj pyclass "(string \<times> tree) list"
  | TSeq "tree list"
  | TCut

fun value_of :: "nat \<Rightarrow> objs \<Rightarrow> ival \<Rightarrow> tree" where
  "value_of n objs (IPrim v) = TPrim v"
| "value_of n objs (ISeq ys) = TSeq (map (value_of n objs) ys)"
| "value_of 0 objs (IObj i) = TCut"
| "value_of (Suc n) objs (IObj i) =
     (if i < length objs
      then TObj (obj_cls (objs ! i))
             (map (\<lambda>ky. (fst ky, value_of n objs (snd ky))) (obj_fields (objs ! i)))
      else TCut)"

lemma value_of_relocated:
  assumes objs2: "objs2 = objs1 @ map (shift_obj d) (drop b0 objs1)"
    and d: "d = length objs1 - b0" and b0: "b0 \<le> length objs1"
    and ok: "objs_ok b0 objs1"
  shows "ival_in b0 (length objs1) y \<Longrightarrow> value_of n objs2 (shift_ival d y) = value_of n objs2 y"
proof (induction n arbitrary: y)
  case 0
  then show ?case by (induction y) (auto simp add: list_all_iff)
next
  case (Suc n)
  from Suc.prems show ?case
  proof (induction y)
    case (IPrim v)
    show ?case by simp
  next
    case (ISeq ys)
    then show ?case by (auto simp add: list_all_iff)
  next
    case (IObj i)
    then have i: "b0 \<le> i" "i < length objs1" by simp_all
    have old: "objs2 ! i = objs1 ! i" using i by (simp add: objs2 nth_append)
    have "i + d = length objs1 + (i - b0)" using i b0 d by simp
    then have "objs2 ! (i + d) = map (shift_obj d) (drop b0 objs1) ! (i - b0)"
      by (simp add: objs2)
    also have "\<dots> = shift_obj d (objs1 ! i)" using i by simp
    finally have new: "objs2 ! (i + d) = shift_obj d (objs1 ! i)" .
    have len: "i + d < length objs2" "i < length objs2" using i b0 by (simp_all add: objs2 d)
    have "obj_in b0 i (objs1 ! i)" using ok i by (simp add: objs_ok_def)
    then have fields: "list_all (\<lambda>ky. ival_in b0 (length objs1) (snd ky)) (obj_fields (objs1 ! i))"
      using fields_in_mono [of b0 i "obj_fields (objs1 ! i)" "length objs1"] i
      by (simp add: obj_in_def)
    have eq: "value_of n objs2 (shift_ival d (snd ky)) = value_of n objs2 (snd ky)"
      if "ky \<in> set (obj_fields (objs1 ! i))" for ky
      using Suc.IH [of "snd ky"] fields that by (simp add: list_all_iff)
    show ?case
      using len eq by (simp add: old new shift_obj_def shift_fields_def comp_def)
  qed
qed

subsection \<open>Two calls\<close>

lemma good_init: "good tf h (length objs) ([], objs)"
  by (simp add: good_def memo_ok_def objs_ok_def memo_onto_def)

text \<open>
  Claim C9. Let a first call of \<open>build\<close> on a template return the instance \<open>r1\<close> and the
  store \<open>objs1\<close>. Then a second call on the same template returns too, with an instance
  \<open>r2\<close> and a store \<open>objs2\<close>, and:
  \<^item> both calls leave the instances that existed before them as they were, and the
    instances of the second call are those of the first, relocated by the number of
    instances the first call made; so \<open>r2\<close> and \<open>r1\<close> are equal by value, at every depth;
  \<^item> if the template is a Config node, \<open>r1\<close> and \<open>r2\<close> are different instances;
  \<^item> \<open>r1\<close> and every instance made by the first call refer only to instances made by
    the first call, \<open>r2\<close> and every instance made by the second call only to instances
    made by the second call: no instance, nested at any depth, is shared by the two
    results;
  \<^item> within one call there is one memo \<open>\<mu>\<close> such that every instance made is the
    instance \<open>\<mu>\<close> gives to a node, of the node's class, and the result and every field
    are the built form through \<open>\<mu>\<close> of their arguments: two argument slots that refer
    to the same template node hold the same instance, the one \<open>\<mu>\<close> gives the node, and
    the memo of the second call gives every node another instance.
\<close>

theorem build_twice:
  assumes "pax_fiddle_build tf h objs root = Inr (r1, objs1)"
  shows "\<exists>r2 objs2 \<mu>.
      pax_fiddle_build tf h objs1 root = Inr (r2, objs2)
    \<and> take (length objs) objs1 = objs \<and> take (length objs1) objs2 = objs1
    \<and> r2 = shift_ival (length objs1 - length objs) r1
    \<and> drop (length objs1) objs2 =
        map (shift_obj (length objs1 - length objs)) (drop (length objs) objs1)
    \<and> (\<forall>n. value_of n objs2 r2 = value_of n objs2 r1)
    \<and> (\<forall>a. root = VCfg a \<longrightarrow> r1 \<noteq> r2)
    \<and> ival_in (length objs) (length objs1) r1 \<and> objs_ok (length objs) objs1
    \<and> ival_in (length objs1) (length objs2) r2 \<and> objs_ok (length objs1) objs2
    \<and> r1 = img \<mu> root \<and> built \<mu> root
    \<and> memo_ok tf h (length objs) (\<mu>, objs1) \<and> memo_onto (length objs) (\<mu>, objs1)
    \<and> r2 = img (shift_memo (length objs1 - length objs) \<mu>) root
    \<and> memo_ok tf h (length objs1) (shift_memo (length objs1 - length objs) \<mu>, objs2)
    \<and> memo_onto (length objs1) (shift_memo (length objs1 - length objs) \<mu>, objs2)"
proof -
  let ?d = "length objs1 - length objs"
  from assms obtain \<mu> where b1: "build_val tf h [] ([], objs) root = Inr (r1, \<mu>, objs1)"
    by (auto simp add: pax_fiddle_build_def split: sum.splits)
  from build_good(1) [OF b1 good_init, unfolded fst_conv snd_conv]
  have e1: "ext [] ([], objs) (\<mu>, objs1)" and g1: "good tf h (length objs) (\<mu>, objs1)"
    and i1: "r1 = img \<mu> root" and bt1: "built \<mu> root"
    and in1: "ival_in (length objs) (length objs1) r1"
    by blast+
  have len: "length objs \<le> length objs1" using ext_length [OF e1] by simp
  then have "length objs1 = length (snd ([], objs)) + ?d" by simp
  from build_relocate(1) [OF b1 this]
  obtain new where n: "objs1 = objs @ new"
    and b2: "build_val tf h [] ([], objs1) root =
               Inr (shift_ival ?d r1, shift_memo ?d \<mu>, objs1 @ map (shift_obj ?d) new)"
    by (auto simp add: shift_memo_def)
  let ?r2 = "shift_ival ?d r1"
  let ?objs2 = "objs1 @ map (shift_obj ?d) new"
  have new: "new = drop (length objs) objs1" by (simp add: n)
  from build_good(1) [OF b2 good_init, unfolded fst_conv snd_conv]
  have g2: "good tf h (length objs1) (shift_memo ?d \<mu>, ?objs2)"
    and i2: "?r2 = img (shift_memo ?d \<mu>) root"
    and in2: "ival_in (length objs1) (length ?objs2) ?r2"
    by blast+
  have ok1: "objs_ok (length objs) objs1" using g1 by (simp add: good_def)
  have c1: "pax_fiddle_build tf h objs1 root = Inr (?r2, ?objs2)"
    by (simp add: pax_fiddle_build_def b2)
  have c2: "take (length objs) objs1 = objs" by (simp add: n)
  have c3: "take (length objs1) ?objs2 = objs1" by simp
  have c4: "drop (length objs1) ?objs2 = map (shift_obj ?d) (drop (length objs) objs1)"
    by (simp add: new)
  have c5: "\<forall>n. value_of n ?objs2 ?r2 = value_of n ?objs2 r1"
    using value_of_relocated [OF _ refl len ok1 in1, of ?objs2] by (simp add: new)
  have c6: "\<forall>a. root = VCfg a \<longrightarrow> r1 \<noteq> ?r2"
  proof (intro allI impI)
    fix a
    assume "root = VCfg a"
    with i1 bt1 obtain j where j: "r1 = IObj j" by auto
    with in1 have "length objs < length objs1" by simp
    with j show "r1 \<noteq> ?r2" by simp
  qed
  have c7: "memo_ok tf h (length objs) (\<mu>, objs1)"
    and c7': "memo_onto (length objs) (\<mu>, objs1)"
    using g1 by (simp_all add: good_def)
  have c8: "memo_ok tf h (length objs1) (shift_memo ?d \<mu>, ?objs2)"
    and c8': "memo_onto (length objs1) (shift_memo ?d \<mu>, ?objs2)"
    and c9: "objs_ok (length objs1) ?objs2"
    using g2 by (simp_all add: good_def)
  from c1 c2 c3 c4 c5 c6 in1 ok1 in2 c9 i1 bt1 c7 c7' i2 c8 c8' show ?thesis by blast
qed

theorem build_twice_witness:
  "pax_fiddle_build is_template_field shared_owner_config [] (VCfg 0) = Inr (IObj 1, built_fleet)
   \<and> pax_fiddle_build is_template_field shared_owner_config built_fleet (VCfg 0) =
       Inr (IObj 3, built_fleet_twice)
   \<and> (\<forall>n. value_of n built_fleet_twice (IObj 3) = value_of n built_fleet_twice (IObj 1))
   \<and> ival_in 0 2 (IObj 1) \<and> objs_ok 0 built_fleet
   \<and> ival_in 2 4 (IObj 3) \<and> objs_ok 2 built_fleet_twice"
proof -
  have e1: "pax_fiddle_build is_template_field shared_owner_config [] (VCfg 0) =
              Inr (IObj 1, built_fleet)"
    by code_simp
  have e2: "pax_fiddle_build is_template_field shared_owner_config built_fleet (VCfg 0) =
              Inr (IObj 3, built_fleet_twice)"
    by code_simp
  have l1: "length built_fleet = 2" by (simp add: built_fleet_def)
  have l2: "length built_fleet_twice = 4" by (simp add: built_fleet_twice_def built_fleet_def)
  from build_twice [OF e1] obtain r2 objs2 where
    b: "pax_fiddle_build is_template_field shared_owner_config built_fleet (VCfg 0) =
          Inr (r2, objs2)"
    and v: "\<forall>n. value_of n objs2 r2 = value_of n objs2 (IObj 1)"
    and i1: "ival_in (length ([] :: objs)) (length built_fleet) (IObj 1)"
    and o1: "objs_ok (length ([] :: objs)) built_fleet"
    and i2: "ival_in (length built_fleet) (length objs2) r2"
    and o2: "objs_ok (length built_fleet) objs2"
    by blast
  from b e2 have r: "r2 = IObj 3" "objs2 = built_fleet_twice" by simp_all
  from v i1 o1 i2 o2 show ?thesis unfolding r l1 l2 using e1 e2 by simp
qed

text \<open>
  The test \<open>test_shared_vehicle_owners\<close>: the fleet is built and set up. The manager and
  the owners of the three vehicles come from one Config node, through four calls of
  \<open>build\<close>; they are four instances, equal by value.
\<close>

lemma test_shared_vehicle_owners:
  "build_then_setup 3 is_template_field shared_owner_config [] (VCfg 0) =
     Some (Inr (IObj 1, shared_owner_fleet))
   \<and> obj_getattr shared_owner_fleet (IObj 1) ''manager'' = Inr (IObj 0)
   \<and> obj_getattr shared_owner_fleet (IObj 1) ''vehicles'' = Inr (ISeq [IObj 3, IObj 9, IObj 15])
   \<and> map (\<lambda>v. obj_getattr shared_owner_fleet v ''owner'') [IObj 3, IObj 9, IObj 15] =
       [Inr (IObj 2), Inr (IObj 8), Inr (IObj 14)]
   \<and> map (value_of 1 shared_owner_fleet) [IObj 0, IObj 2, IObj 8, IObj 14] =
       replicate 4 (TObj Person [(''name'', TPrim (VStr ''Ben''))])"
  by code_simp

text \<open>
  Within one call: a Fleet template that is given its vehicles as a list holding the same
  Vehicle node twice, whose owner is the manager's node. The two elements of the list are
  one instance, and its owner is the manager.
\<close>

lemma shared_within_one_build:
  "pax_fiddle_build is_template_field listed_vehicles_config [] (VCfg 0) =
     Inr (IObj 2,
       [Obj Person [(''name'', IPrim (VStr ''Ben''))],
        Obj Vehicle [(''wheel_tpl'', IPrim (VCfg 2)), (''num_wheels'', IPrim (VInt 4)),
                     (''owner'', IObj 0), (''wheels'', IPrim VNone)],
        Obj Fleet [(''vehicle_tpl'', IPrim (VCfg 1)), (''num_vehicles'', IPrim (VInt 2)),
                   (''manager'', IObj 0), (''vehicles'', ISeq [IObj 1, IObj 1])]])"
  by code_simp

end
